theory Spec2Isabelle
  imports Complex_Main "HOL-Library.Char_ord" "HOL-Library.List_Lexorder"
    "HOL-Library.Product_Lexorder" "HOL-Library.Multiset"
begin

section \<open>Python strings\<close>

text \<open>
  A Python \<open>str\<close> is a sequence of Unicode code points. The titles, which
  \<open>TopicExtractor\<close> lower-cases and searches with a regular expression, are modelled as lists
  of code points; \<open>ascii\<close> embeds a literal of ASCII characters.
\<close>

type_synonym py_str = "nat list"

definition ascii :: "string \<Rightarrow> py_str" where
  "ascii s = map of_char s"

text \<open>
  What the interpreter knows about the code points from 128 on, as far as \<open>str.lower\<close> and the
  classes \<open>\w\<close> and \<open>\b\<close> of \<open>re\<close> use it: \<open>isalnum c\<close> is \<open>str.isalnum\<close> of the code point \<open>c\<close>, and
  \<open>lower_at s i\<close> is what \<open>str.lower\<close> puts in the place of the code point at index \<open>i\<close> of \<open>s\<close>
  (one code point or several, and the neighbours matter for the capital sigma). The tables
  are a parameter of the model: what is proved for every \<open>u\<close> holds for the interpreter's.
\<close>

record unicode =
  isalnum :: "nat \<Rightarrow> bool"
  lower_at :: "py_str \<Rightarrow> nat \<Rightarrow> py_str"

section \<open>Canonical posts (examples.py, \<open>_extract_post_data\<close>)\<close>

text \<open>
  The dictionary built by \<open>RedditDataCollector._extract_post_data\<close>, one field per key.
  The keys \<open>id\<close>, \<open>title\<close> and \<open>score\<close> carry the prefix \<open>post_\<close> because the stored
  record of the persistence layer has columns of the same names. Python floats are
  modelled as reals, Python ints as \<open>int\<close>.
\<close>

record post =
  post_id :: string
  post_title :: py_str
  selftext :: string
  url :: string
  permalink :: string
  post_score :: int
  upvote_ratio :: real
  num_comments :: int
  created_utc :: real
  created_datetime :: string
  subreddit :: string
  author :: string
  flair :: "string option"
  gilded :: int
  stickied :: bool
  over_18 :: bool
  is_self :: bool
  domain :: string

section \<open>EngagementAnalyzer\<close>

record velocity =
  age_hours :: real
  score_per_hour :: real
  comments_per_hour :: real

text \<open>
  \<open>calculate_engagement_velocity\<close>; the reading of the clock
  (\<open>datetime.now().timestamp()\<close>) is the argument \<open>now\<close>.
\<close>

definition calculate_engagement_velocity :: "real \<Rightarrow> post \<Rightarrow> velocity" where
  "calculate_engagement_velocity now p =
     (let age = (now - created_utc p) / 3600;
          age = (if age \<le> 0 then 0.1 else age)
      in \<lparr>age_hours = age,
          score_per_hour = real_of_int (post_score p) / age,
          comments_per_hour = real_of_int (num_comments p) / age\<rparr>)"

definition calculate_engagement_quality :: "post \<Rightarrow> real" where
  "calculate_engagement_quality p =
     (let score = max (post_score p) 1;
          comment_ratio = real_of_int (num_comments p) / real_of_int score;
          upvote = upvote_ratio p;
          discussion_score = min (comment_ratio * 100) 100;
          agreement_score = upvote * 100
      in (discussion_score + agreement_score) / 2)"

definition is_trending :: "real \<Rightarrow> post \<Rightarrow> real \<Rightarrow> bool" where
  "is_trending now p min_velocity =
     (score_per_hour (calculate_engagement_velocity now p) \<ge> min_velocity)"

section \<open>SentimentAnalyzer\<close>

text \<open>The polarity tuple of the external scorer (\<open>vader.polarity_scores\<close>).\<close>

record polarity =
  pol_compound :: real
  pol_pos :: real
  pol_neu :: real
  pol_neg :: real

record sentiment =
  compound :: real
  positive :: real
  neutral :: real
  negative :: real
  classification :: string

text \<open>
  The analyzer holds the scorer when the import succeeded (\<open>vader_available\<close>), and
  nothing otherwise: \<open>None\<close> is \<open>vader_available = False\<close>.
\<close>

definition neutral_default :: sentiment where
  "neutral_default =
     \<lparr>compound = 0, positive = 0, neutral = 1, negative = 0, classification = ''neutral''\<rparr>"

definition analyze_text :: "(string \<Rightarrow> polarity) option \<Rightarrow> string \<Rightarrow> sentiment" where
  "analyze_text vader text =
     (case vader of
        None \<Rightarrow> neutral_default
      | Some polarity_scores \<Rightarrow>
          if text = [] then neutral_default
          else
            let scores = polarity_scores text;
                cls = (if pol_compound scores > 0.05 then ''positive''
                       else if pol_compound scores < - 0.05 then ''negative''
                       else ''neutral'')
            in \<lparr>compound = pol_compound scores, positive = pol_pos scores,
                neutral = pol_neu scores, negative = pol_neg scores,
                classification = cls\<rparr>)"

section \<open>Sample data\<close>

definition sample_post :: post where
  "sample_post =
     \<lparr>post_id = ''abc'', post_title = ascii ''Best Python tips'', selftext = '''',
      url = ''https://example.org'', permalink = ''https://reddit.com/r/python/abc'',
      post_score = 120, upvote_ratio = 0.9, num_comments = 30, created_utc = 0,
      created_datetime = ''1970-01-01T00:00:00'', subreddit = ''python'',
      author = ''[deleted]'', flair = None, gilded = 0, stickied = False,
      over_18 = False, is_self = True, domain = ''self.python''\<rparr>"

section \<open>Engagement velocity\<close>

lemma velocity_age_positive:
  "0 < age_hours (calculate_engagement_velocity now p)"
  by (simp add: calculate_engagement_velocity_def Let_def)

text \<open>
  C5, as stated: \<open>ageHours = max(0.1, (now - createdEpoch)/3600)\<close>. The code replaces the
  age only when it is not positive, so a post that is three minutes old has
  \<open>age_hours = 0.05\<close>, below the claimed floor.
\<close>

theorem velocity_floor_counterexample:
  "age_hours (calculate_engagement_velocity 180 sample_post)
     \<noteq> max 0.1 ((180 - created_utc sample_post) / 3600)
   \<and> age_hours (calculate_engagement_velocity 180 sample_post) < 0.1"
  by (simp add: calculate_engagement_velocity_def sample_post_def Let_def)

text \<open>
  C5, amended: \<open>age_hours\<close> is \<open>(now - created_utc)/3600\<close> when that is positive and
  \<open>0.1\<close> otherwise; it is always positive, and it is at least \<open>0.1\<close> exactly when the
  age is not positive or at least six minutes (360 seconds). The two rates are the score and the
  comment count divided by \<open>age_hours\<close>.
\<close>

theorem velocity_amended:
  "age_hours (calculate_engagement_velocity now p) =
     (if (now - created_utc p) / 3600 \<le> 0 then 0.1 else (now - created_utc p) / 3600)
   \<and> 0 < age_hours (calculate_engagement_velocity now p)
   \<and> (0.1 \<le> age_hours (calculate_engagement_velocity now p)
        \<longleftrightarrow> now - created_utc p \<le> 0 \<or> 360 \<le> now - created_utc p)
   \<and> score_per_hour (calculate_engagement_velocity now p) =
       real_of_int (post_score p) / age_hours (calculate_engagement_velocity now p)
   \<and> comments_per_hour (calculate_engagement_velocity now p) =
       real_of_int (num_comments p) / age_hours (calculate_engagement_velocity now p)"
  by (auto simp add: calculate_engagement_velocity_def Let_def)

section \<open>Engagement quality\<close>

lemma quality_formula:
  "calculate_engagement_quality p =
     (min (100 * real_of_int (num_comments p) / real_of_int (max (post_score p) 1)) 100
      + 100 * upvote_ratio p) / 2"
  by (simp add: calculate_engagement_quality_def Let_def mult.commute)

lemma quality_lower:
  assumes "0 \<le> num_comments p" and "0 \<le> upvote_ratio p"
  shows "0 \<le> calculate_engagement_quality p"
proof -
  define d where "d = min (100 * real_of_int (num_comments p) / real_of_int (max (post_score p) 1)) 100"
  have "0 < real_of_int (max (post_score p) 1)" by simp
  with assms(1) have "0 \<le> 100 * real_of_int (num_comments p) / real_of_int (max (post_score p) 1)"
    by (simp add: divide_nonneg_pos)
  then have "0 \<le> d" by (simp add: d_def)
  moreover have "calculate_engagement_quality p = (d + 100 * upvote_ratio p) / 2"
    by (simp add: quality_formula d_def)
  ultimately show ?thesis using assms(2) by simp
qed

lemma quality_upper:
  assumes "upvote_ratio p \<le> 1"
  shows "calculate_engagement_quality p \<le> 100"
proof -
  define d where "d = min (100 * real_of_int (num_comments p) / real_of_int (max (post_score p) 1)) 100"
  have "d \<le> 100" by (simp add: d_def)
  moreover have "calculate_engagement_quality p = (d + 100 * upvote_ratio p) / 2"
    by (simp add: quality_formula d_def)
  ultimately show ?thesis using assms by simp
qed

text \<open>
  C7: for a post with a non-negative comment count and an upvote ratio in \<open>[0, 1]\<close>, the
  quality lies in \<open>[0, 100]\<close> and is the average of \<open>min(100 * comments / max(score, 1), 100)\<close>
  and \<open>100 * upvote_ratio\<close>; any post that agrees with it on the score, the comment count and
  the upvote ratio has the same quality, whatever its other fields.
\<close>

theorem quality_bounds_and_purity:
  assumes "0 \<le> num_comments p" and "0 \<le> upvote_ratio p" and "upvote_ratio p \<le> 1"
  shows "0 \<le> calculate_engagement_quality p
       \<and> calculate_engagement_quality p \<le> 100
       \<and> calculate_engagement_quality p =
           (min (100 * real_of_int (num_comments p) / real_of_int (max (post_score p) 1)) 100
            + 100 * upvote_ratio p) / 2
       \<and> (\<forall>q. post_score q = post_score p \<and> num_comments q = num_comments p
                \<and> upvote_ratio q = upvote_ratio p
              \<longrightarrow> calculate_engagement_quality q = calculate_engagement_quality p)"
proof -
  have same: "calculate_engagement_quality q = calculate_engagement_quality p"
    if "post_score q = post_score p" "num_comments q = num_comments p"
       "upvote_ratio q = upvote_ratio p" for q
    using that by (simp add: calculate_engagement_quality_def)
  show ?thesis
  proof (intro conjI allI impI)
    show "0 \<le> calculate_engagement_quality p" by (rule quality_lower [OF assms(1,2)])
    show "calculate_engagement_quality p \<le> 100" by (rule quality_upper [OF assms(3)])
    show "calculate_engagement_quality p =
           (min (100 * real_of_int (num_comments p) / real_of_int (max (post_score p) 1)) 100
            + 100 * upvote_ratio p) / 2"
      by (rule quality_formula)
  next
    fix q :: post
    assume "post_score q = post_score p \<and> num_comments q = num_comments p
                \<and> upvote_ratio q = upvote_ratio p"
    then show "calculate_engagement_quality q = calculate_engagement_quality p"
      using same by blast
  qed
qed

theorem quality_bounds_and_purity_witness:
  "calculate_engagement_quality sample_post = 115 / 2
   \<and> 0 \<le> calculate_engagement_quality sample_post
   \<and> calculate_engagement_quality sample_post \<le> 100
   \<and> calculate_engagement_quality
        (sample_post\<lparr>post_title := ascii ''Another title'', author := ''someone'', gilded := 3\<rparr>)
       = calculate_engagement_quality sample_post"
proof -
  have h: "0 \<le> num_comments sample_post" "0 \<le> upvote_ratio sample_post"
    "upvote_ratio sample_post \<le> 1"
    by (simp_all add: sample_post_def)
  have v: "(min (100 * real_of_int (num_comments sample_post)
              / real_of_int (max (post_score sample_post) 1)) 100
            + 100 * upvote_ratio sample_post) / 2 = 115 / 2"
    by (simp add: sample_post_def)
  define q :: post where "q = sample_post\<lparr>post_title := ascii ''Another title'', author := ''someone'', gilded := 3\<rparr>"
  have e: "post_score q = post_score sample_post \<and> num_comments q = num_comments sample_post
      \<and> upvote_ratio q = upvote_ratio sample_post"
    by (simp add: q_def)
  note t = quality_bounds_and_purity [OF h]
  from t have b: "0 \<le> calculate_engagement_quality sample_post"
    "calculate_engagement_quality sample_post \<le> 100" by blast+
  from t v have f: "calculate_engagement_quality sample_post = 115 / 2" by presburger
  from t e have "calculate_engagement_quality q = calculate_engagement_quality sample_post"
    by blast
  with b f show ?thesis unfolding q_def by blast
qed

section \<open>Sentiment classification\<close>

definition sample_scorer :: "string \<Rightarrow> polarity" where
  "sample_scorer text =
     (if text = ''great'' then \<lparr>pol_compound = 0.6249, pol_pos = 1, pol_neu = 0, pol_neg = 0\<rparr>
      else if text = ''awful'' then \<lparr>pol_compound = - 0.4588, pol_pos = 0, pol_neu = 0, pol_neg = 1\<rparr>
      else \<lparr>pol_compound = 0.05, pol_pos = 0.1, pol_neu = 0.9, pol_neg = 0\<rparr>)"

text \<open>
  C9: the label of the returned tuple is \<open>positive\<close> exactly when its compound score is above
  \<open>0.05\<close>, \<open>negative\<close> exactly when it is below \<open>-0.05\<close>, and \<open>neutral\<close> otherwise; when the
  scorer is unavailable or the text is empty the result is the fixed tuple
  \<open>(0, 0, 1, 0, neutral)\<close>; otherwise the four scores are the scorer's.
\<close>

theorem analyze_text_classification:
  "(classification (analyze_text vader text) = ''positive''
      \<longleftrightarrow> compound (analyze_text vader text) > 0.05)
   \<and> (classification (analyze_text vader text) = ''negative''
      \<longleftrightarrow> compound (analyze_text vader text) < - 0.05)
   \<and> (classification (analyze_text vader text) = ''neutral''
      \<longleftrightarrow> \<not> compound (analyze_text vader text) > 0.05
          \<and> \<not> compound (analyze_text vader text) < - 0.05)
   \<and> (vader = None \<or> text = [] \<longrightarrow>
        analyze_text vader text =
          \<lparr>compound = 0, positive = 0, neutral = 1, negative = 0, classification = ''neutral''\<rparr>)
   \<and> (\<forall>f. vader = Some f \<and> text \<noteq> [] \<longrightarrow>
        compound (analyze_text vader text) = pol_compound (f text)
        \<and> positive (analyze_text vader text) = pol_pos (f text)
        \<and> neutral (analyze_text vader text) = pol_neu (f text)
        \<and> negative (analyze_text vader text) = pol_neg (f text))"
  by (cases vader) (auto simp add: analyze_text_def neutral_default_def Let_def)

theorem analyze_text_classification_witness:
  "classification (analyze_text (Some sample_scorer) ''great'') = ''positive''
   \<and> classification (analyze_text (Some sample_scorer) ''awful'') = ''negative''
   \<and> classification (analyze_text (Some sample_scorer) ''fine'') = ''neutral''
   \<and> analyze_text None ''great'' =
       \<lparr>compound = 0, positive = 0, neutral = 1, negative = 0, classification = ''neutral''\<rparr>
   \<and> analyze_text (Some sample_scorer) '''' =
       \<lparr>compound = 0, positive = 0, neutral = 1, negative = 0, classification = ''neutral''\<rparr>"
proof -
  have g: "compound (analyze_text (Some sample_scorer) ''great'') > 0.05"
    using analyze_text_classification [of "Some sample_scorer" "''great''"]
    by (simp add: sample_scorer_def)
  have a: "compound (analyze_text (Some sample_scorer) ''awful'') < - 0.05"
    using analyze_text_classification [of "Some sample_scorer" "''awful''"]
    by (simp add: sample_scorer_def)
  have f: "\<not> compound (analyze_text (Some sample_scorer) ''fine'') > 0.05
         \<and> \<not> compound (analyze_text (Some sample_scorer) ''fine'') < - 0.05"
    using analyze_text_classification [of "Some sample_scorer" "''fine''"]
    by (simp add: sample_scorer_def)
  from g a f analyze_text_classification [of "Some sample_scorer" "''great''"]
    analyze_text_classification [of "Some sample_scorer" "''awful''"]
    analyze_text_classification [of "Some sample_scorer" "''fine''"]
    analyze_text_classification [of None "''great''"]
    analyze_text_classification [of "Some sample_scorer" "''''"]
  show ?thesis by simp
qed

section \<open>RateLimiter (examples.py)\<close>

text \<open>
  Time is counted in microseconds, the resolution of \<open>datetime\<close>: a timestamp is an \<open>int\<close>,
  \<open>timedelta(seconds = n)\<close> is \<open>n * 1000000\<close>, and the margin \<open>0.1\<close> of
  \<open>time.sleep(sleep_time + 0.1)\<close> is \<open>100000\<close>.
\<close>

datatype py_error = IndexError | ValueError string | ExternalError string | ArgumentError

record RateLimiter =
  max_requests :: int
  time_window :: int
  requests :: "int list"

definition timedelta :: "int \<Rightarrow> int" where
  "timedelta seconds = seconds * 1000000"

definition sleep_margin :: int where
  "sleep_margin = 100000"

text \<open>
  \<open>wait_if_needed\<close>. The argument \<open>now\<close> is the reading of \<open>datetime.now()\<close> at the start of
  the call; the result is the limiter after the call and the time at which the call
  returns (\<open>now\<close>, or \<open>now + sleep_time + 0.1\<close> after a sleep). \<open>self.requests[0]\<close> on an
  empty list raises \<open>IndexError\<close>. The timestamp appended is \<open>now\<close>, read before the sleep.
\<close>

definition wait_if_needed :: "RateLimiter \<Rightarrow> int \<Rightarrow> py_error + (RateLimiter \<times> int)" where
  "wait_if_needed self now =
     (let cutoff = now - timedelta (time_window self);
          reqs = filter (\<lambda>req. req > cutoff) (requests self)
      in if int (length reqs) \<ge> max_requests self then
           (case reqs of
              [] \<Rightarrow> Inl IndexError
            | r0 # _ \<Rightarrow>
                let sleep_time = r0 + timedelta (time_window self) - now
                in if sleep_time > 0
                   then Inr (self\<lparr>requests := [now]\<rparr>, now + (sleep_time + sleep_margin))
                   else Inr (self\<lparr>requests := reqs @ [now]\<rparr>, now))
         else Inr (self\<lparr>requests := reqs @ [now]\<rparr>, now))"

text \<open>
  A run of calls by one caller: before each call time advances by a delay (what the caller
  does between two calls, zero when the calls are back to back); the clock of the next call
  starts where the previous call returned. An exception ends the run.
\<close>

fun admit_seq :: "RateLimiter \<Rightarrow> int \<Rightarrow> nat list \<Rightarrow> py_error + (RateLimiter \<times> int)" where
  "admit_seq self t [] = Inr (self, t)"
| "admit_seq self t (d # ds) =
     (case wait_if_needed self (t + int d) of
        Inl e \<Rightarrow> Inl e
      | Inr (self', t') \<Rightarrow> admit_seq self' t' ds)"

text \<open>
  The log of a run: for every call that returned, the timestamp it recorded and the time at
  which it returned (the instant from which the caller goes on to issue its request).
\<close>

fun admit_log :: "RateLimiter \<Rightarrow> int \<Rightarrow> nat list \<Rightarrow> (int \<times> int) list" where
  "admit_log self t [] = []"
| "admit_log self t (d # ds) =
     (case wait_if_needed self (t + int d) of
        Inl e \<Rightarrow> []
      | Inr (self', t') \<Rightarrow> (t + int d, t') # admit_log self' t' ds)"

definition new_RateLimiter :: "int \<Rightarrow> int \<Rightarrow> RateLimiter" where
  "new_RateLimiter max_req window = \<lparr>max_requests = max_req, time_window = window, requests = []\<rparr>"

text \<open>The recorded timestamps that lie in the slice \<open>(T - window, T]\<close>.\<close>

definition in_slice :: "RateLimiter \<Rightarrow> int \<Rightarrow> int list" where
  "in_slice self T =
     filter (\<lambda>r. T - timedelta (time_window self) < r \<and> r \<le> T) (requests self)"

section \<open>RateLimiter: one call\<close>

lemma wait_if_needed_step:
  assumes "1 \<le> max_requests self"
  shows "wait_if_needed self now =
     (let kept = filter (\<lambda>req. req > now - timedelta (time_window self)) (requests self)
      in if max_requests self \<le> int (length kept)
         then Inr (self\<lparr>requests := [now]\<rparr>,
                   hd kept + timedelta (time_window self) + sleep_margin)
         else Inr (self\<lparr>requests := kept @ [now]\<rparr>, now))"
proof -
  define kept where "kept = filter (\<lambda>req. req > now - timedelta (time_window self)) (requests self)"
  show ?thesis
  proof (cases "max_requests self \<le> int (length kept)")
    case False
    then show ?thesis by (simp add: wait_if_needed_def Let_def kept_def)
  next
    case True
    with assms have "kept \<noteq> []" by auto
    then obtain r0 rs where k: "kept = r0 # rs" by (cases kept) auto
    then have "r0 \<in> set kept" by simp
    then have "now - timedelta (time_window self) < r0" by (simp add: kept_def)
    then have pos: "0 < r0 + timedelta (time_window self) - now" by simp
    have "wait_if_needed self now =
        Inr (self\<lparr>requests := [now]\<rparr>, now + (r0 + timedelta (time_window self) - now + sleep_margin))"
      using True k pos unfolding wait_if_needed_def Let_def kept_def [symmetric] by simp
    with True k show ?thesis unfolding Let_def kept_def [symmetric] by simp
  qed
qed

lemma wait_if_needed_length:
  assumes "1 \<le> max_requests self" and "wait_if_needed self now = Inr (self', t')"
  shows "int (length (requests self')) \<le> max_requests self
       \<and> max_requests self' = max_requests self \<and> time_window self' = time_window self
       \<and> now \<le> t'"
proof -
  define kept where "kept = filter (\<lambda>req. req > now - timedelta (time_window self)) (requests self)"
  show ?thesis
  proof (cases "max_requests self \<le> int (length kept)")
    case False
    with assms show ?thesis
      unfolding wait_if_needed_step [OF assms(1)] Let_def kept_def [symmetric] by auto
  next
    case True
    with assms(1) have "kept \<noteq> []" by auto
    then have "hd kept \<in> set kept" by simp
    then have "now - timedelta (time_window self) < hd kept" by (simp add: kept_def)
    with True assms show ?thesis
      unfolding wait_if_needed_step [OF assms(1)] Let_def kept_def [symmetric]
      by (auto simp add: sleep_margin_def)
  qed
qed

lemma wait_if_needed_returns:
  assumes "1 \<le> max_requests self"
  shows "\<exists>self' t'. wait_if_needed self now = Inr (self', t')"
  unfolding wait_if_needed_step [OF assms] Let_def by simp

section \<open>RateLimiter: runs of calls\<close>

lemma admit_seq_returns:
  assumes "1 \<le> max_requests self"
  shows "\<exists>self' t'. admit_seq self t ds = Inr (self', t')"
  using assms
proof (induction ds arbitrary: self t)
  case Nil
  then show ?case by simp
next
  case (Cons d ds)
  from wait_if_needed_returns [OF Cons.prems] obtain s1 t1
    where w: "wait_if_needed self (t + int d) = Inr (s1, t1)" by blast
  from wait_if_needed_length [OF Cons.prems w] have "1 \<le> max_requests s1"
    using Cons.prems by simp
  from Cons.IH [OF this] w show ?case by simp
qed

lemma admit_seq_length:
  assumes "1 \<le> max_requests self"
    and "int (length (requests self)) \<le> max_requests self"
    and "admit_seq self t ds = Inr (self', t')"
  shows "int (length (requests self')) \<le> max_requests self
       \<and> max_requests self' = max_requests self \<and> time_window self' = time_window self
       \<and> t \<le> t'"
  using assms
proof (induction ds arbitrary: self t)
  case Nil
  then show ?case by simp
next
  case (Cons d ds)
  from wait_if_needed_returns [OF Cons.prems(1)] obtain s1 t1
    where w: "wait_if_needed self (t + int d) = Inr (s1, t1)" by blast
  note l = wait_if_needed_length [OF Cons.prems(1) w]
  from w Cons.prems(3) have r: "admit_seq s1 t1 ds = Inr (self', t')" by simp
  from l Cons.prems(1) have "1 \<le> max_requests s1" "int (length (requests s1)) \<le> max_requests s1"
    by simp_all
  from Cons.IH [OF this r] l show ?case by simp
qed

text \<open>
  The invariant of a run that started at \<open>t0\<close> on an empty window: either a full window has
  already elapsed, or no timestamp was dropped and no call slept, so that all \<open>n\<close> calls made
  so far are still recorded.
\<close>

definition run_inv :: "int \<Rightarrow> nat \<Rightarrow> RateLimiter \<Rightarrow> int \<Rightarrow> bool" where
  "run_inv t0 n self t \<longleftrightarrow>
     t0 \<le> t \<and>
     (t0 + timedelta (time_window self) \<le> t
      \<or> (length (requests self) = n \<and> list_all (\<lambda>r. t0 \<le> r \<and> r \<le> t) (requests self)))"

lemma filter_all_or_witness:
  "filter P xs = xs \<or> (\<exists>x \<in> set xs. \<not> P x)"
  by (induction xs) auto

lemma run_inv_step:
  assumes m: "1 \<le> max_requests self"
    and w: "wait_if_needed self now = Inr (self', t')"
    and le: "t \<le> now"
    and inv: "run_inv t0 n self t"
  shows "run_inv t0 (Suc n) self' t'"
proof -
  define W where "W = timedelta (time_window self)"
  define kept where "kept = filter (\<lambda>req. req > now - W) (requests self)"
  note l = wait_if_needed_length [OF m w]
  have tw: "timedelta (time_window self') = W" using l by (simp add: W_def)
  from inv have t0: "t0 \<le> t" by (simp add: run_inv_def)
  with le l have t0': "t0 \<le> t'" by simp
  show ?thesis
  proof (cases "t0 + W \<le> t")
    case True
    with le l have "t0 + W \<le> t'" by simp
    with t0' show ?thesis by (simp add: run_inv_def tw)
  next
    case False
    with inv have n: "length (requests self) = n"
      and a: "list_all (\<lambda>r. t0 \<le> r \<and> r \<le> t) (requests self)"
      by (simp_all add: run_inv_def W_def)
    from filter_all_or_witness [of "\<lambda>req. req > now - W" "requests self"]
    consider (same) "kept = requests self"
      | (dropped) r where "r \<in> set (requests self)" "\<not> r > now - W"
      unfolding kept_def by blast
    then show ?thesis
    proof cases
      case dropped
      with a have "t0 \<le> r" by (simp add: list_all_iff)
      with dropped l have "t0 + W \<le> t'" by simp
      with t0' show ?thesis by (simp add: run_inv_def tw)
    next
      case same
      show ?thesis
      proof (cases "max_requests self \<le> int (length kept)")
        case True
        with m have "kept \<noteq> []" by auto
        then have "hd kept \<in> set (requests self)" using same by (metis hd_in_set)
        with a have "t0 \<le> hd kept" by (simp add: list_all_iff)
        moreover from True w have "t' = hd kept + W + sleep_margin"
          unfolding wait_if_needed_step [OF m] Let_def W_def [symmetric] kept_def [symmetric]
          by simp
        ultimately have "t0 + W \<le> t'" by (simp add: sleep_margin_def)
        with t0' show ?thesis by (simp add: run_inv_def tw)
      next
        case False
        with w have r: "requests self' = requests self @ [now]" and t: "t' = now"
          unfolding wait_if_needed_step [OF m] Let_def W_def [symmetric] kept_def [symmetric] same
          by auto
        from a le have "list_all (\<lambda>r. t0 \<le> r \<and> r \<le> now) (requests self)"
          by (auto simp add: list_all_iff)
        with r t n t0' show ?thesis by (simp add: run_inv_def)
      qed
    qed
  qed
qed

lemma run_inv_admit_seq:
  assumes "1 \<le> max_requests self"
    and "admit_seq self t ds = Inr (self', t')"
    and "run_inv t0 n self t"
  shows "run_inv t0 (n + length ds) self' t'"
  using assms
proof (induction ds arbitrary: self t n)
  case Nil
  then show ?case by simp
next
  case (Cons d ds)
  from wait_if_needed_returns [OF Cons.prems(1)] obtain s1 t1
    where w: "wait_if_needed self (t + int d) = Inr (s1, t1)" by blast
  from wait_if_needed_length [OF Cons.prems(1) w] Cons.prems(1)
  have m1: "1 \<le> max_requests s1" by simp
  from w Cons.prems(2) have r: "admit_seq s1 t1 ds = Inr (self', t')" by simp
  have "run_inv t0 (Suc n) s1 t1"
    by (rule run_inv_step [OF Cons.prems(1) w _ Cons.prems(3)]) simp
  from Cons.IH [OF m1 r this] show ?case by simp
qed

text \<open>
  From an empty window, more calls than \<open>max_requests\<close> take at least one full window.
\<close>

lemma burst_takes_a_window:
  assumes m: "1 \<le> max_requests self" and e: "requests self = []"
    and r: "admit_seq self t0 ds = Inr (self', t')"
    and n: "max_requests self < int (length ds)"
  shows "t0 + timedelta (time_window self) \<le> t'"
proof -
  have "run_inv t0 0 self t0" using e by (simp add: run_inv_def)
  from run_inv_admit_seq [OF m r this]
  have i: "run_inv t0 (length ds) self' t'" by simp
  from admit_seq_length [OF m _ r] e
  have l: "int (length (requests self')) \<le> max_requests self"
    and w: "time_window self' = time_window self"
    using m by simp_all
  from l n have "length (requests self') \<noteq> length ds" by linarith
  with i w show ?thesis by (simp add: run_inv_def)
qed

lemma in_slice_length:
  "length (in_slice self T) \<le> length (requests self)"
  by (simp add: in_slice_def)

text \<open>
  What the limiter does guarantee. (1) A new limiter with \<open>max_requests = 3\<close> and \<open>time_window = 1\<close> admits five calls, whatever
  the delays between them, and the fifth returns at least one second (1000000 microseconds)
  after the start; (2) for a limiter with \<open>max_requests \<ge> 1\<close> whose window holds at most
  \<open>max_requests\<close> timestamps (a new one holds none), every run of calls returns and leaves at
  most \<open>max_requests\<close> recorded timestamps in any slice \<open>(T - time_window, T]\<close>; (3) one call
  keeps the timestamps newer than \<open>now - time_window\<close>, and when \<open>max_requests\<close> or more remain it
  returns at the oldest remaining timestamp plus the window plus the margin with the window
  replaced by the single timestamp \<open>now\<close>, and otherwise returns at once with \<open>now\<close> appended.
\<close>

lemma rate_limiter_bound:
  "(\<exists>self' t'. admit_seq (new_RateLimiter 3 1) t0 [d1, d2, d3, d4, d5] = Inr (self', t')
       \<and> t0 + 1000000 \<le> t')
   \<and> (1 \<le> max_requests self \<and> int (length (requests self)) \<le> max_requests self \<longrightarrow>
        (\<exists>self' t'. admit_seq self t ds = Inr (self', t')
           \<and> (\<forall>T. int (length (in_slice self' T)) \<le> max_requests self)))
   \<and> (1 \<le> max_requests self \<longrightarrow>
        wait_if_needed self now =
          (let kept = filter (\<lambda>req. req > now - timedelta (time_window self)) (requests self)
           in if max_requests self \<le> int (length kept)
              then Inr (self\<lparr>requests := [now]\<rparr>,
                        hd kept + timedelta (time_window self) + sleep_margin)
              else Inr (self\<lparr>requests := kept @ [now]\<rparr>, now)))"
proof (intro conjI impI)
  have m: "1 \<le> max_requests (new_RateLimiter 3 1)" by (simp add: new_RateLimiter_def)
  from admit_seq_returns [OF m] obtain s' t'
    where r: "admit_seq (new_RateLimiter 3 1) t0 [d1, d2, d3, d4, d5] = Inr (s', t')" by blast
  have "t0 + timedelta (time_window (new_RateLimiter 3 1)) \<le> t'"
    by (rule burst_takes_a_window [OF m _ r]) (simp_all add: new_RateLimiter_def)
  then have "t0 + 1000000 \<le> t'" by (simp add: new_RateLimiter_def timedelta_def)
  with r show "\<exists>self' t'. admit_seq (new_RateLimiter 3 1) t0 [d1, d2, d3, d4, d5] = Inr (self', t')
       \<and> t0 + 1000000 \<le> t'" by blast
next
  assume a: "1 \<le> max_requests self \<and> int (length (requests self)) \<le> max_requests self"
  then have m: "1 \<le> max_requests self" and l: "int (length (requests self)) \<le> max_requests self"
    by simp_all
  from admit_seq_returns [OF m] obtain s' t'
    where r: "admit_seq self t ds = Inr (s', t')" by blast
  from admit_seq_length [OF m l r] have "int (length (requests s')) \<le> max_requests self" by simp
  moreover have "int (length (in_slice s' T)) \<le> int (length (requests s'))" for T
    using in_slice_length [of s' T] by simp
  ultimately have "\<forall>T. int (length (in_slice s' T)) \<le> max_requests self"
    by (meson order_trans)
  with r show "\<exists>self' t'. admit_seq self t ds = Inr (self', t')
           \<and> (\<forall>T. int (length (in_slice self' T)) \<le> max_requests self)" by blast
next
  assume "1 \<le> max_requests self"
  then show "wait_if_needed self now =
          (let kept = filter (\<lambda>req. req > now - timedelta (time_window self)) (requests self)
           in if max_requests self \<le> int (length kept)
              then Inr (self\<lparr>requests := [now]\<rparr>,
                        hd kept + timedelta (time_window self) + sleep_margin)
              else Inr (self\<lparr>requests := kept @ [now]\<rparr>, now))"
    by (rule wait_if_needed_step)
qed

lemma wait_if_needed_run_1:
  "wait_if_needed (new_RateLimiter 3 1) 0 =
     Inr (\<lparr>max_requests = 3, time_window = 1, requests = [0]\<rparr>, 0)"
  by (simp add: wait_if_needed_def new_RateLimiter_def timedelta_def)

lemma wait_if_needed_run_2:
  "wait_if_needed \<lparr>max_requests = 3, time_window = 1, requests = [0]\<rparr> 900000 =
     Inr (\<lparr>max_requests = 3, time_window = 1, requests = [0, 900000]\<rparr>, 900000)"
  by (simp add: wait_if_needed_def timedelta_def)

lemma wait_if_needed_run_3:
  "wait_if_needed \<lparr>max_requests = 3, time_window = 1, requests = [0, 900000]\<rparr> 900000 =
     Inr (\<lparr>max_requests = 3, time_window = 1, requests = [0, 900000, 900000]\<rparr>, 900000)"
  by (simp add: wait_if_needed_def timedelta_def)

lemma wait_if_needed_run_4:
  "wait_if_needed \<lparr>max_requests = 3, time_window = 1, requests = [0, 900000, 900000]\<rparr> 950000 =
     Inr (\<lparr>max_requests = 3, time_window = 1, requests = [950000]\<rparr>, 1100000)"
  by (simp add: wait_if_needed_def timedelta_def sleep_margin_def)

lemma wait_if_needed_run_5:
  "wait_if_needed \<lparr>max_requests = 3, time_window = 1, requests = [950000]\<rparr> 1100000 =
     Inr (\<lparr>max_requests = 3, time_window = 1, requests = [950000, 1100000]\<rparr>, 1100000)"
  by (simp add: wait_if_needed_def timedelta_def)

lemma wait_if_needed_run_6:
  "wait_if_needed \<lparr>max_requests = 3, time_window = 1, requests = [950000, 1100000]\<rparr> 1100000 =
     Inr (\<lparr>max_requests = 3, time_window = 1, requests = [950000, 1100000, 1100000]\<rparr>, 1100000)"
  by (simp add: wait_if_needed_def timedelta_def)

lemma admit_log_run:
  "admit_log (new_RateLimiter 3 1) 0 [0, 900000, 0, 50000, 0, 0] =
     [(0, 0), (900000, 900000), (900000, 900000), (950000, 1100000),
      (1100000, 1100000), (1100000, 1100000)]"
  by (simp add: wait_if_needed_run_1 wait_if_needed_run_2 wait_if_needed_run_3
      wait_if_needed_run_4 wait_if_needed_run_5 wait_if_needed_run_6)

text \<open>
  Clearing the window forgets calls that are still inside it. With \<open>max_requests = 3\<close> and
  \<open>time_window = 1\<close>, calls at 0 s, 0.9 s, 0.9 s and 0.95 s fill the window; the fourth sleeps
  until 1.1 s and clears it, so the next two calls return at 1.1 s as well. The slice
  \<open>(0.1 s, 1.1 s]\<close> then holds five calls, counted by the time at which they returned and also
  counted by the timestamp they recorded.
\<close>

lemma rate_limiter_cleared_window_run:
  "length (filter (\<lambda>(recorded, returned). 1100000 - timedelta 1 < returned \<and> returned \<le> 1100000)
       (admit_log (new_RateLimiter 3 1) 0 [0, 900000, 0, 50000, 0, 0])) = 5
   \<and> length (filter (\<lambda>(recorded, returned). 1100000 - timedelta 1 < recorded \<and> recorded \<le> 1100000)
       (admit_log (new_RateLimiter 3 1) 0 [0, 900000, 0, 50000, 0, 0])) = 5
   \<and> \<not> (5 \<le> max_requests (new_RateLimiter 3 1))"
  unfolding admit_log_run by (simp add: timedelta_def new_RateLimiter_def)

lemma admit_log_burst:
  "admit_log (new_RateLimiter 3 1) 0 [0, 0, 0, 0, 0, 0, 0] =
     [(0, 0), (0, 0), (0, 0), (0, 1100000),
      (1100000, 1100000), (1100000, 1100000), (1100000, 1100000)]"
  by (simp add: wait_if_needed_def new_RateLimiter_def timedelta_def sleep_margin_def Let_def)

text \<open>
  C2: the limiter is to keep the calls it admits to at most \<open>max_requests\<close> in any trailing
  \<open>time_window\<close>. Seven back-to-back calls on a new limiter with \<open>max_requests = 3\<close> and
  \<open>time_window = 1\<close>: three return at once, the fourth sleeps until 1.1 s, clears the window and
  records the time read before the sleep, 0 s, which has left the window when the fifth call
  comes; the fifth, sixth and seventh therefore return at 1.1 s too. Four calls are admitted
  at the same instant, and four recorded timestamps are 0 s, against a limit of three.
\<close>

theorem rate_limiter_burst_exceeds_limit:
  "admit_log (new_RateLimiter 3 1) 0 [0, 0, 0, 0, 0, 0, 0] =
     [(0, 0), (0, 0), (0, 0), (0, 1100000),
      (1100000, 1100000), (1100000, 1100000), (1100000, 1100000)]
   \<and> length (filter (\<lambda>(recorded, returned). 1100000 - timedelta 1 < returned \<and> returned \<le> 1100000)
       (admit_log (new_RateLimiter 3 1) 0 [0, 0, 0, 0, 0, 0, 0])) = 4
   \<and> length (filter (\<lambda>(recorded, returned). 0 - timedelta 1 < recorded \<and> recorded \<le> 0)
       (admit_log (new_RateLimiter 3 1) 0 [0, 0, 0, 0, 0, 0, 0])) = 4
   \<and> max_requests (new_RateLimiter 3 1) = 3"
  unfolding admit_log_burst by (simp add: timedelta_def new_RateLimiter_def)

lemma rate_limiter_bound_example:
  "(\<exists>self' t'. admit_seq (new_RateLimiter 3 1) 0 [0, 0, 0, 0, 0] = Inr (self', t')
       \<and> (0::int) + 1000000 \<le> t')
   \<and> 1 \<le> max_requests (new_RateLimiter 3 1)
   \<and> int (length (requests (new_RateLimiter 3 1))) \<le> max_requests (new_RateLimiter 3 1)
   \<and> (\<exists>self' t'. admit_seq (new_RateLimiter 3 1) 0 [0, 900000, 0, 50000, 0, 0] = Inr (self', t')
           \<and> (\<forall>T. int (length (in_slice self' T)) \<le> max_requests (new_RateLimiter 3 1)))
   \<and> wait_if_needed \<lparr>max_requests = 3, time_window = 1, requests = [0, 900000, 900000]\<rparr> 950000 =
       Inr (\<lparr>max_requests = 3, time_window = 1, requests = [950000]\<rparr>, 1100000)"
proof -
  have h: "1 \<le> max_requests (new_RateLimiter 3 1)
     \<and> int (length (requests (new_RateLimiter 3 1))) \<le> max_requests (new_RateLimiter 3 1)"
    by (simp add: new_RateLimiter_def)
  have h2: "1 \<le> max_requests \<lparr>max_requests = 3, time_window = 1, requests = [0, 900000, 900000]\<rparr>"
    by simp
  note a = rate_limiter_bound [of 0 0 0 0 0 0 "new_RateLimiter 3 1" 0 "[0, 900000, 0, 50000, 0, 0]" 0]
  note b = rate_limiter_bound [of 0 0 0 0 0 0
      "\<lparr>max_requests = 3, time_window = 1, requests = [0, 900000, 900000]\<rparr>" 0 "[]" 950000]
  from a have 1: "\<exists>self' t'. admit_seq (new_RateLimiter 3 1) 0 [0, 0, 0, 0, 0] = Inr (self', t')
       \<and> (0::int) + 1000000 \<le> t'" by blast
  from a h have 2: "\<exists>self' t'. admit_seq (new_RateLimiter 3 1) 0 [0, 900000, 0, 50000, 0, 0] = Inr (self', t')
           \<and> (\<forall>T. int (length (in_slice self' T)) \<le> max_requests (new_RateLimiter 3 1))"
    by blast
  from b h2 have 3: "wait_if_needed \<lparr>max_requests = 3, time_window = 1, requests = [0, 900000, 900000]\<rparr> 950000 =
       Inr (\<lparr>max_requests = 3, time_window = 1, requests = [950000]\<rparr>, 1100000)"
    by (simp add: timedelta_def sleep_margin_def)
  from 1 2 3 h show ?thesis by blast
qed

section \<open>RedditDataCollector (examples.py)\<close>

text \<open>
  The external client (\<open>praw\<close>) is a parameter: one listing per sort method (\<open>subreddit.hot\<close>,
  \<open>new\<close>, \<open>top\<close>, \<open>rising\<close>). A listing is
  consumed item by item; an item is either a submission whose data can be extracted or the
  exception raised when it is fetched or extracted. The collector carries its rate limiter,
  the log it wrote (\<open>logger.info\<close>, \<open>logger.error\<close>) and the listing requests it issued to the
  client, as (subreddit, sort method) pairs.
\<close>

record reddit_client =
  hot_listing :: "string \<Rightarrow> int \<Rightarrow> (py_error + post) list"
  new_listing :: "string \<Rightarrow> int \<Rightarrow> (py_error + post) list"
  top_listing :: "string \<Rightarrow> string \<Rightarrow> int \<Rightarrow> (py_error + post) list"
  rising_listing :: "string \<Rightarrow> int \<Rightarrow> (py_error + post) list"

datatype log_entry =
    Collected nat string
  | ErrorCollecting string py_error

record RedditDataCollector =
  rate_limiter :: RateLimiter
  log :: "log_entry list"
  listings :: "(string \<times> string) list"

definition new_RedditDataCollector :: RedditDataCollector where
  "new_RedditDataCollector =
     \<lparr>rate_limiter = new_RateLimiter 60 60, log = [], listings = []\<rparr>"

text \<open>
  The loop \<open>for submission in submissions: posts.append(self._extract_post_data(submission))\<close>:
  the posts collected so far, and the exception that ended the loop, if any.
\<close>

fun extract_loop :: "(py_error + post) list \<Rightarrow> post list \<Rightarrow> post list \<times> py_error option" where
  "extract_loop [] posts = (posts, None)"
| "extract_loop (Inl e # rest) posts = (posts, Some e)"
| "extract_loop (Inr p # rest) posts = extract_loop rest (posts @ [p])"

text \<open>
  \<open>collect_posts\<close>. The call to the rate limiter stands before the \<open>try\<close>, so its exception
  reaches the caller; everything raised inside the \<open>try\<close>, the \<open>ValueError\<close> for the sort key
  included, is caught by \<open>except Exception\<close>, logged, and the posts gathered so far are
  returned. The result is the posts, the collector after the call and the time of return.
\<close>

definition collect_posts ::
  "reddit_client \<Rightarrow> RedditDataCollector \<Rightarrow> int \<Rightarrow> string \<Rightarrow> int \<Rightarrow> string \<Rightarrow> string
     \<Rightarrow> py_error + (post list \<times> RedditDataCollector \<times> int)" where
  "collect_posts reddit self now subreddit_name limit sort_by time_filter =
     (case wait_if_needed (rate_limiter self) now of
        Inl e \<Rightarrow> Inl e
      | Inr (limiter, t) \<Rightarrow>
          let self = self\<lparr>rate_limiter := limiter\<rparr>;
              submissions =
                (if sort_by = ''hot'' then Inr (hot_listing reddit subreddit_name limit)
                 else if sort_by = ''new'' then Inr (new_listing reddit subreddit_name limit)
                 else if sort_by = ''top'' then Inr (top_listing reddit subreddit_name time_filter limit)
                 else if sort_by = ''rising'' then Inr (rising_listing reddit subreddit_name limit)
                 else Inl (ValueError (''Invalid sort_by value: '' @ sort_by)))
          in case submissions of
               Inl e \<Rightarrow>
                 Inr ([], self\<lparr>log := log self @ [ErrorCollecting subreddit_name e]\<rparr>, t)
             | Inr items \<Rightarrow>
                 let self = self\<lparr>listings := listings self @ [(subreddit_name, sort_by)]\<rparr>
                 in (case extract_loop items [] of
                       (posts, None) \<Rightarrow>
                         Inr (posts,
                              self\<lparr>log := log self @ [Collected (length posts) subreddit_name]\<rparr>, t)
                     | (posts, Some e) \<Rightarrow>
                         Inr (posts,
                              self\<lparr>log := log self @ [ErrorCollecting subreddit_name e]\<rparr>, t)))"

definition sample_client :: reddit_client where
  "sample_client =
     \<lparr>hot_listing = (\<lambda>name limit. [Inr sample_post]),
      new_listing = (\<lambda>name limit. [Inr sample_post, Inl (ExternalError ''timeout'')]),
      top_listing = (\<lambda>name time_filter limit. [Inr sample_post, Inr sample_post]),
      rising_listing = (\<lambda>name limit. [])\<rparr>"

section \<open>Collecting with an unrecognized sort key\<close>

definition recognized_sort :: "string \<Rightarrow> bool" where
  "recognized_sort sort_by \<longleftrightarrow> sort_by \<in> set [''hot'', ''new'', ''top'', ''rising'']"

text \<open>
  C6: an unrecognized sort key is a usage fault, reported at once to the caller, with nothing
  fetched and no partial work. The code raises \<open>ValueError\<close> for the key \<open>best\<close> and catches it
  itself: the call of a new collector returns normally with an empty list, the rate limiter
  has recorded the call, and the fault is only in the log.
\<close>

theorem collect_invalid_sort_swallowed:
  "\<not> recognized_sort ''best''
   \<and> collect_posts sample_client new_RedditDataCollector 0 ''python'' 100 ''best'' ''day'' =
       Inr ([],
            \<lparr>rate_limiter = \<lparr>max_requests = 60, time_window = 60, requests = [0]\<rparr>,
             log = [ErrorCollecting ''python'' (ValueError ''Invalid sort_by value: best'')],
             listings = []\<rparr>,
            0)
   \<and> (\<forall>e. collect_posts sample_client new_RedditDataCollector 0 ''python'' 100 ''best'' ''day''
          \<noteq> Inl e)"
  by (simp add: recognized_sort_def collect_posts_def new_RedditDataCollector_def
      new_RateLimiter_def wait_if_needed_def timedelta_def Let_def)

text \<open>
  The same for every unrecognized sort key: no listing is requested from the client and no
  item is returned; the rate limiter is consulted first (it records the call, and may sleep
  or raise), then the \<open>ValueError\<close> for the key is caught and logged, and the caller receives
  the empty list.
\<close>

lemma collect_invalid_sort:
  "\<not> recognized_sort sort_by \<longrightarrow>
     collect_posts reddit self now subreddit_name limit sort_by time_filter =
       (case wait_if_needed (rate_limiter self) now of
          Inl e \<Rightarrow> Inl e
        | Inr (limiter, t) \<Rightarrow>
            Inr ([],
                 self\<lparr>rate_limiter := limiter,
                      log := log self @ [ErrorCollecting subreddit_name
                                (ValueError (''Invalid sort_by value: '' @ sort_by))]\<rparr>,
                 t))"
  by (auto simp add: recognized_sort_def collect_posts_def Let_def split: sum.splits)

lemma collect_invalid_sort_example:
  "\<not> recognized_sort ''controversial''
   \<and> collect_posts sample_client new_RedditDataCollector 5 ''python'' 10 ''controversial'' ''week'' =
       Inr ([],
            \<lparr>rate_limiter = \<lparr>max_requests = 60, time_window = 60, requests = [5]\<rparr>,
             log = [ErrorCollecting ''python'' (ValueError ''Invalid sort_by value: controversial'')],
             listings = []\<rparr>,
            5)"
proof -
  have h: "\<not> recognized_sort ''controversial''" by (simp add: recognized_sort_def)
  have w: "wait_if_needed (rate_limiter new_RedditDataCollector) 5 =
      Inr (\<lparr>max_requests = 60, time_window = 60, requests = [5]\<rparr>, 5)"
    by (simp add: new_RedditDataCollector_def new_RateLimiter_def wait_if_needed_def
        timedelta_def)
  from collect_invalid_sort [of "''controversial''" sample_client new_RedditDataCollector 5
      "''python''" 10 "''week''"] h
  have "collect_posts sample_client new_RedditDataCollector 5 ''python'' 10 ''controversial'' ''week'' =
       (case wait_if_needed (rate_limiter new_RedditDataCollector) 5 of
          Inl e \<Rightarrow> Inl e
        | Inr (limiter, t) \<Rightarrow>
            Inr ([],
                 new_RedditDataCollector\<lparr>rate_limiter := limiter,
                      log := log new_RedditDataCollector @ [ErrorCollecting ''python''
                                (ValueError (''Invalid sort_by value: '' @ ''controversial''))]\<rparr>,
                 t))"
    by blast
  with h show ?thesis unfolding w by (simp add: new_RedditDataCollector_def)
qed

lemma collect_valid_sort_example:
  "collect_posts sample_client new_RedditDataCollector 0 ''python'' 100 ''new'' ''day'' =
     Inr ([sample_post],
          \<lparr>rate_limiter = \<lparr>max_requests = 60, time_window = 60, requests = [0]\<rparr>,
           log = [ErrorCollecting ''python'' (ExternalError ''timeout'')],
           listings = [(''python'', ''new'')]\<rparr>,
          0)"
  by (simp add: collect_posts_def new_RedditDataCollector_def sample_client_def
      new_RateLimiter_def wait_if_needed_def timedelta_def Let_def)

section \<open>TopicExtractor (examples.py)\<close>

text \<open>
  \<open>is_alpha\<close> is the class \<open>[a-zA-Z]\<close> of the pattern \<open>\b[a-zA-Z]{3,}\b\<close>: the ASCII letters and
  nothing else, since the pattern is compiled without \<open>re.IGNORECASE\<close>.
\<close>

definition is_alpha :: "nat \<Rightarrow> bool" where
  "is_alpha c \<longleftrightarrow> (97 \<le> c \<and> c \<le> 122) \<or> (65 \<le> c \<and> c \<le> 90)"

text \<open>
  \<open>is_word\<close> is the class \<open>\w\<close> that decides where \<open>\b\<close> holds. The pattern is a \<open>str\<close> pattern, so
  the class is the Unicode one: a code point for which \<open>str.isalnum\<close> holds, or the
  underscore. Below 128 these are the letters, the digits and the underscore; above, the
  table of the interpreter decides.
\<close>

definition is_word :: "unicode \<Rightarrow> nat \<Rightarrow> bool" where
  "is_word u c \<longleftrightarrow>
     (if c < 128 then is_alpha c \<or> (48 \<le> c \<and> c \<le> 57) \<or> c = 95 else isalnum u c)"

text \<open>
  \<open>str.lower\<close> lower-cases code point by code point: an ASCII capital becomes its small
  letter, any other ASCII code point stays, and a code point from 128 on is replaced by what
  the table of the interpreter gives at that place of the string.
\<close>

definition lower_char :: "unicode \<Rightarrow> py_str \<Rightarrow> nat \<Rightarrow> py_str" where
  "lower_char u s i =
     (if s ! i < 128 then [if 65 \<le> s ! i \<and> s ! i \<le> 90 then s ! i + 32 else s ! i]
      else lower_at u s i)"

definition lower :: "unicode \<Rightarrow> py_str \<Rightarrow> py_str" where
  "lower u s = concat (map (lower_char u s) [0..<length s])"

text \<open>\<open>' '.join(titles)\<close>\<close>

fun join_space :: "py_str list \<Rightarrow> py_str" where
  "join_space [] = []"
| "join_space [x] = x"
| "join_space (x # y # ys) = x @ ascii '' '' @ join_space (y # ys)"

text \<open>
  \<open>\b\<close> between two neighbouring positions: exactly one side is a word character (the ends of
  the text count as non-word).
\<close>

definition word_boundary :: "unicode \<Rightarrow> nat option \<Rightarrow> nat option \<Rightarrow> bool" where
  "word_boundary u l r \<longleftrightarrow>
     (case l of None \<Rightarrow> False | Some c \<Rightarrow> is_word u c)
       \<noteq> (case r of None \<Rightarrow> False | Some c \<Rightarrow> is_word u c)"

definition next_char :: "py_str \<Rightarrow> nat option" where
  "next_char s = (case s of [] \<Rightarrow> None | c # _ \<Rightarrow> Some c)"

lemma length_dropWhile_run:
  "3 \<le> length (takeWhile P xs) \<Longrightarrow> length (dropWhile P xs) < length xs"
proof -
  assume "3 \<le> length (takeWhile P xs)"
  moreover have "length (takeWhile P xs) + length (dropWhile P xs) = length xs"
    by (metis length_append takeWhile_dropWhile_id)
  ultimately show ?thesis by linarith
qed

text \<open>
  \<open>re.findall(r'\b[a-zA-Z]{3,}\b', text)\<close>, scanning from left to right; \<open>prev\<close> is the character
  before the current position. At a position the pattern matches when a boundary stands
  before it, the greedy run of letters has length at least three and a boundary stands
  after the run (a shorter run ends between two letters, where no boundary is); the scan
  resumes after the match, and one character further when there is none.
\<close>

function findall_words :: "unicode \<Rightarrow> nat option \<Rightarrow> py_str \<Rightarrow> py_str list" where
  "findall_words u prev [] = []"
| "findall_words u prev (c # cs) =
     (if word_boundary u prev (Some c)
         \<and> 3 \<le> length (takeWhile is_alpha (c # cs))
         \<and> word_boundary u (Some (last (takeWhile is_alpha (c # cs))))
              (next_char (dropWhile is_alpha (c # cs)))
      then takeWhile is_alpha (c # cs)
             # findall_words u (Some (last (takeWhile is_alpha (c # cs))))
                             (dropWhile is_alpha (c # cs))
      else findall_words u (Some c) cs)"
  by pat_completeness auto
termination
proof (relation "measure (\<lambda>(u, prev, s). length s)", goal_cases)
  case 1
  show ?case by simp
next
  case (2 u prev c cs)
  then have "3 \<le> length (takeWhile is_alpha (c # cs))" by blast
  then have "length (dropWhile is_alpha (c # cs)) < length (c # cs)"
    by (rule length_dropWhile_run)
  then show ?case by (simp del: dropWhile.simps)
next
  case (3 u prev c cs)
  show ?case by simp
qed

definition STOP_WORDS :: "py_str list" where
  "STOP_WORDS = map ascii
     [''the'', ''is'', ''in'', ''and'', ''to'', ''of'', ''for'', ''with'', ''on'', ''this'',
      ''that'', ''are'', ''was'', ''be'', ''by'', ''at'', ''from'', ''or'', ''an'', ''as'',
      ''it'', ''can'', ''will'', ''but'', ''not'', ''you'', ''your'', ''we'', ''my'', ''me'',
      ''i'', ''a'', ''has'', ''have'', ''had'', ''what'', ''when'', ''where'', ''who'', ''how'']"

text \<open>
  \<open>collections.Counter\<close>: a dictionary in insertion order, here an association list; a new key
  goes to the end, a known key has its count raised in place.
\<close>

fun counter_add :: "'a \<Rightarrow> ('a \<times> nat) list \<Rightarrow> ('a \<times> nat) list" where
  "counter_add w [] = [(w, 1)]"
| "counter_add w ((k, n) # rest) =
     (if k = w then (k, Suc n) # rest else (k, n) # counter_add w rest)"

definition Counter :: "'a list \<Rightarrow> ('a \<times> nat) list" where
  "Counter ws = foldl (\<lambda>counts w. counter_add w counts) [] ws"

text \<open>
  \<open>Counter.most_common(n)\<close> is \<open>heapq.nlargest(n, items, key = count)\<close>, that is
  \<open>sorted(items, key = count, reverse = True)[:n]\<close>: a stable sort by falling count, cut to
  \<open>n\<close> items (none when \<open>n \<le> 0\<close>).
\<close>

definition most_common :: "int \<Rightarrow> ('a \<times> nat) list \<Rightarrow> ('a \<times> nat) list" where
  "most_common n counts = take (nat n) (sort_key (\<lambda>(w, c). - int c) counts)"

definition title_words :: "unicode \<Rightarrow> post list \<Rightarrow> py_str list" where
  "title_words u posts =
     filter (\<lambda>w. w \<notin> set STOP_WORDS)
       (findall_words u None (lower u (join_space (map post_title posts))))"

definition extract_keywords :: "unicode \<Rightarrow> post list \<Rightarrow> int \<Rightarrow> (py_str \<times> nat) list" where
  "extract_keywords u posts top_n = most_common top_n (Counter (title_words u posts))"

definition titled :: "py_str \<Rightarrow> post" where
  "titled t = sample_post\<lparr>post_title := t\<rparr>"

definition example_posts :: "post list" where
  "example_posts = [titled (ascii ''Best Python tips''),
     titled (ascii ''Python tips and tricks''), titled (ascii ''Best practices'')]"

text \<open>
  The maximal runs of characters of a class, from left to right; \<open>runs (is_word u)\<close> are the whole
  words of a text.
\<close>

function runs :: "('a \<Rightarrow> bool) \<Rightarrow> 'a list \<Rightarrow> 'a list list" where
  "runs P [] = []"
| "runs P (c # cs) =
     (if P c then takeWhile P (c # cs) # runs P (dropWhile P cs) else runs P cs)"
  by pat_completeness auto
termination
proof (relation "measure (\<lambda>(P, s). length s)", goal_cases)
  case 1
  show ?case by simp
next
  case (2 P c cs)
  have "length (dropWhile P cs) \<le> length cs" by (rule length_dropWhile_le)
  then show ?case by simp
next
  case (3 P c cs)
  show ?case by simp
qed

text \<open>A word that the pattern accepts: letters only, at least three of them.\<close>

definition keyword_shape :: "py_str \<Rightarrow> bool" where
  "keyword_shape w \<longleftrightarrow> 3 \<le> length w \<and> list_all is_alpha w"

text \<open>
  The tokenizer in the words of the specification, "lowercase alphabetic runs of length at
  least 3": the maximal runs of letters of the lower-cased text that have three letters or
  more, whatever stands next to them.
\<close>

definition spec_title_words :: "unicode \<Rightarrow> post list \<Rightarrow> py_str list" where
  "spec_title_words u posts =
     filter (\<lambda>w. w \<notin> set STOP_WORDS)
       (filter (\<lambda>w. 3 \<le> length w)
         (runs is_alpha (lower u (join_space (map post_title posts)))))"

definition spec_extract_keywords :: "unicode \<Rightarrow> post list \<Rightarrow> int \<Rightarrow> (py_str \<times> nat) list" where
  "spec_extract_keywords u posts top_n = most_common top_n (Counter (spec_title_words u posts))"

text \<open>The order of first encounter: \<open>remdups\<close> keeps last occurrences, so it is used on the reversed list.\<close>

definition first_seen :: "'a list \<Rightarrow> 'a list" where
  "first_seen ws = rev (remdups (rev ws))"

section \<open>Tokenizer: the pattern finds the whole words made of letters\<close>

definition is_word_opt :: "unicode \<Rightarrow> nat option \<Rightarrow> bool" where
  "is_word_opt u p = (case p of None \<Rightarrow> False | Some c \<Rightarrow> is_word u c)"

lemma is_alpha_is_word: "is_alpha c \<Longrightarrow> is_word u c"
  by (auto simp add: is_word_def is_alpha_def)

lemma takeWhile_class_eq:
  assumes "\<And>x. P x \<Longrightarrow> Q x" and "list_all P (takeWhile Q xs)"
  shows "takeWhile P xs = takeWhile Q xs \<and> dropWhile P xs = dropWhile Q xs"
  using assms(2)
proof (induction xs)
  case Nil
  then show ?case by simp
next
  case (Cons x xs)
  then show ?case using assms(1) by (cases "Q x") auto
qed

lemma dropWhile_class_stops:
  assumes "\<And>x. P x \<Longrightarrow> Q x" and "\<not> list_all P (takeWhile Q xs)"
  shows "\<exists>x rest. dropWhile P xs = x # rest \<and> Q x"
  using assms(2)
proof (induction xs)
  case Nil
  then show ?case by simp
next
  case (Cons x xs)
  then show ?case by (cases "Q x"; cases "P x") auto
qed

lemma word_boundary_simps:
  "word_boundary u p (Some c) \<longleftrightarrow> is_word_opt u p \<noteq> is_word u c"
  "word_boundary u (Some c) q \<longleftrightarrow> is_word u c \<noteq> is_word_opt u q"
  by (simp_all add: word_boundary_def is_word_opt_def)

lemma findall_words_runs:
  "findall_words u prev s =
     filter keyword_shape
       (runs (is_word u) (if is_word_opt u prev then dropWhile (is_word u) s else s))"
proof (induction u prev s rule: findall_words.induct)
  case (1 u prev)
  show ?case by simp
next
  case (2 u prev c cs)
  let ?run = "takeWhile is_alpha (c # cs)"
  let ?rest = "dropWhile is_alpha (c # cs)"
  let ?cond = "word_boundary u prev (Some c) \<and> 3 \<le> length ?run
      \<and> word_boundary u (Some (last ?run)) (next_char ?rest)"
  have skip: "findall_words u prev (c # cs) = findall_words u (Some c) cs" if "\<not> ?cond"
    using that by (simp only: findall_words.simps if_False)
  have ih_skip: "findall_words u (Some c) cs =
      filter keyword_shape
        (runs (is_word u) (if is_word u c then dropWhile (is_word u) cs else cs))"
    if "\<not> ?cond"
    using "2.IH"(2) that by (simp add: is_word_opt_def del: takeWhile.simps dropWhile.simps)
  show ?case
  proof (cases "is_word u c")
    case False
    then have "\<not> is_alpha c" using is_alpha_is_word by blast
    then have nc: "\<not> ?cond" by simp
    from skip [OF nc] ih_skip [OF nc] False show ?thesis by simp
  next
    case wc: True
    show ?thesis
    proof (cases "is_word_opt u prev")
      case True
      with wc have nc: "\<not> ?cond" by (simp add: word_boundary_simps)
      from skip [OF nc] ih_skip [OF nc] True wc show ?thesis by simp
    next
      case False
      let ?W = "takeWhile (is_word u) (c # cs)"
      have R: "dropWhile (is_word u) (c # cs) = dropWhile (is_word u) cs" using wc by simp
      have rhs: "runs (is_word u) (c # cs) = ?W # runs (is_word u) (dropWhile (is_word u) cs)"
        using wc by simp
      show ?thesis
      proof (cases "keyword_shape ?W")
        case good: True
        then have all: "list_all is_alpha ?W" and len: "3 \<le> length ?W"
          by (simp_all add: keyword_shape_def)
        from takeWhile_class_eq [OF is_alpha_is_word all]
        have run: "?run = ?W" and rest: "?rest = dropWhile (is_word u) cs" using R by simp_all
        have "?W \<noteq> []" using wc by simp
        then have "last ?W \<in> set ?W" by (rule last_in_set)
        then have lw: "is_word u (last ?W)" by (meson set_takeWhileD)
        have "\<not> is_word_opt u (next_char (dropWhile (is_word u) cs))"
        proof (cases "dropWhile (is_word u) cs")
          case Nil
          show ?thesis unfolding Nil by (simp add: next_char_def is_word_opt_def)
        next
          case (Cons x xs)
          then have "\<not> is_word u x" using hd_dropWhile [of "is_word u" cs] by simp
          then show ?thesis unfolding Cons by (simp add: next_char_def is_word_opt_def)
        qed
        with lw False wc len have c: "?cond"
          unfolding run rest by (simp add: word_boundary_simps del: takeWhile.simps)
        then have "findall_words u prev (c # cs) =
            ?W # findall_words u (Some (last ?W)) (dropWhile (is_word u) cs)"
          unfolding run [symmetric] rest [symmetric]
          by (simp del: takeWhile.simps dropWhile.simps)
        moreover from "2.IH"(1) [OF c] lw
        have "findall_words u (Some (last ?W)) (dropWhile (is_word u) cs) =
            filter keyword_shape (runs (is_word u) (dropWhile (is_word u) cs))"
          unfolding run rest by (simp add: is_word_opt_def del: takeWhile.simps)
        ultimately show ?thesis using False good rhs by (simp del: takeWhile.simps runs.simps)
      next
        case bad: False
        have nc: "\<not> ?cond"
        proof (cases "list_all is_alpha ?W")
          case True
          from takeWhile_class_eq [OF is_alpha_is_word True] have "?run = ?W" by simp
          with bad True show ?thesis by (simp add: keyword_shape_def del: takeWhile.simps)
        next
          case nall: False
          from dropWhile_class_stops [OF is_alpha_is_word nall]
          obtain x xs where r: "?rest = x # xs" and x: "is_word u x" by blast
          show ?thesis
          proof
            assume c: ?cond
            then have "3 \<le> length ?run" by blast
            then have "?run \<noteq> []" by (metis list.size(3) not_numeral_le_zero)
            then have "last ?run \<in> set ?run" by (rule last_in_set)
            then have "is_alpha (last ?run)" by (meson set_takeWhileD)
            then have "is_word u (last ?run)" by (rule is_alpha_is_word)
            with x have "\<not> word_boundary u (Some (last ?run)) (next_char ?rest)"
              unfolding r by (simp add: word_boundary_simps next_char_def is_word_opt_def)
            with c show False by blast
          qed
        qed
        from skip [OF nc] ih_skip [OF nc] wc False bad rhs show ?thesis
          by (simp del: takeWhile.simps runs.simps)
      qed
    qed
  qed
qed

lemma findall_words_whole_words:
  "findall_words u None text = filter keyword_shape (runs (is_word u) text)"
  by (simp add: findall_words_runs is_word_opt_def)

section \<open>Counter: counts in the order of first encounter\<close>

lemma counter_add_counts:
  assumes "distinct ks"
  shows "counter_add w (map (\<lambda>k. (k, f k)) ks) =
     (if w \<in> set ks then map (\<lambda>k. (k, if k = w then Suc (f k) else f k)) ks
      else map (\<lambda>k. (k, f k)) ks @ [(w, 1)])"
  using assms by (induction ks) auto

lemma first_seen_snoc:
  "first_seen (ws @ [w]) = (if w \<in> set ws then first_seen ws else first_seen ws @ [w])"
  by (simp add: first_seen_def)

lemma set_first_seen: "set (first_seen ws) = set ws"
  by (simp add: first_seen_def)

lemma distinct_first_seen: "distinct (first_seen ws)"
  by (simp add: first_seen_def)

lemma Counter_snoc: "Counter (ws @ [w]) = counter_add w (Counter ws)"
  by (simp add: Counter_def)

lemma Counter_first_seen:
  "Counter ws = map (\<lambda>w. (w, count_list ws w)) (first_seen ws)"
proof (induction ws rule: rev_induct)
  case Nil
  show ?case by (simp add: Counter_def first_seen_def)
next
  case (snoc w ws)
  show ?case
  proof (cases "w \<in> set ws")
    case True
    then show ?thesis
      unfolding Counter_snoc snoc.IH counter_add_counts [OF distinct_first_seen]
      by (simp add: first_seen_snoc set_first_seen)
  next
    case False
    then have "count_list ws w = 0" by (simp add: count_list_0_iff)
    with False show ?thesis
      unfolding Counter_snoc snoc.IH counter_add_counts [OF distinct_first_seen]
      by (auto simp add: first_seen_snoc set_first_seen)
  qed
qed

section \<open>Ranking: falling counts, ties in the order of first encounter\<close>

definition ranked :: "'a list \<Rightarrow> ('a \<times> nat) list" where
  "ranked ws = sort_key (\<lambda>(w, c). - int c) (Counter ws)"

lemma most_common_ranked: "most_common n (Counter ws) = take (nat n) (ranked ws)"
  by (simp add: most_common_def ranked_def)

lemma ranked_mset:
  "mset (ranked ws) = mset (map (\<lambda>w. (w, count_list ws w)) (first_seen ws))"
  by (simp add: ranked_def Counter_first_seen)

lemma ranked_falling: "sorted_wrt (\<lambda>a b. snd b \<le> snd a) (ranked ws)"
proof -
  have "sorted (map (\<lambda>(w, c). - int c) (ranked ws))"
    unfolding ranked_def by (rule sorted_sort_key)
  then have "sorted_wrt (\<lambda>a b. (case a of (w, c) \<Rightarrow> - int c) \<le> (case b of (w, c) \<Rightarrow> - int c))
      (ranked ws)"
    by (simp add: sorted_map)
  then show ?thesis
    by (rule sorted_wrt_mono_rel [rotated]) (auto split: prod.splits)
qed

lemma ranked_ties:
  "filter (\<lambda>a. snd a = k) (ranked ws) =
     map (\<lambda>w. (w, k)) (filter (\<lambda>w. count_list ws w = k) (first_seen ws))"
proof -
  have e: "(\<lambda>a. snd a = k) = (\<lambda>a. (case a of (w, c) \<Rightarrow> - int c) = - int k)"
    by (auto split: prod.splits)
  have "filter (\<lambda>a. snd a = k) (ranked ws) = filter (\<lambda>a. snd a = k) (Counter ws)"
    unfolding ranked_def e by (rule sort_key_stable)
  also have "\<dots> = map (\<lambda>w. (w, k)) (filter (\<lambda>w. count_list ws w = k) (first_seen ws))"
    unfolding Counter_first_seen by (induction "first_seen ws") (auto simp: filter_map comp_def)
  finally show ?thesis .
qed

section \<open>Keyword extraction\<close>

text \<open>
  A fragment of the Unicode tables for the examples: \<open>U+00E9\<close> and \<open>U+00C9\<close> (e with acute,
  small and capital) are letters, the capital lower-cases to the small one; every other code
  point from 128 on is taken as a non-word character that lower-cases to itself.
\<close>

definition sample_unicode :: unicode where
  "sample_unicode =
     \<lparr>isalnum = (\<lambda>c. c = 233 \<or> c = 201),
      lower_at = (\<lambda>s i. if s ! i = 201 then [233] else [s ! i])\<rparr>"

text \<open>Titles of ASCII characters only give the same keywords whatever the Unicode tables are.\<close>

lemma extract_keywords_example:
  "extract_keywords u example_posts 3 =
     [(ascii ''best'', 2), (ascii ''python'', 2), (ascii ''tips'', 2)]"
  by code_simp

lemma extract_keywords_digit_example:
  "extract_keywords u [titled (ascii ''Python3 tips'')] 3 = [(ascii ''tips'', 1)]"
  by code_simp

text \<open>
  A letter outside ASCII is a word character and not in \<open>[a-zA-Z]\<close>: in the title
  \<open>CAF\<close>\<open>U+00C9\<close>\<open> tips\<close> the run \<open>caf\<close> ends inside a word, where no boundary is, and \<open>tips\<close> is the
  only keyword.
\<close>

lemma extract_keywords_non_ascii_example:
  "lower sample_unicode (ascii ''CAF'' @ [201] @ ascii '' tips'')
     = ascii ''caf'' @ [233] @ ascii '' tips''
   \<and> extract_keywords sample_unicode [titled (ascii ''CAF'' @ [201] @ ascii '' tips'')] 3
     = [(ascii ''tips'', 1)]"
  by code_simp

text \<open>
  C8, as stated: the tokens are the alphabetic runs of length at least 3. For the single title
  \<open>Python3 tips\<close> the run of letters \<open>python\<close> is such a run, but the pattern asks for a word
  boundary on both sides and the digit is a word character: the code finds \<open>tips\<close> alone.
\<close>

theorem extract_keywords_runs_counterexample:
  "extract_keywords sample_unicode [titled (ascii ''Python3 tips'')] 3 = [(ascii ''tips'', 1)]
   \<and> spec_extract_keywords sample_unicode [titled (ascii ''Python3 tips'')] 3
       = [(ascii ''python'', 1), (ascii ''tips'', 1)]
   \<and> extract_keywords sample_unicode [titled (ascii ''Python3 tips'')] 3
       \<noteq> spec_extract_keywords sample_unicode [titled (ascii ''Python3 tips'')] 3"
proof -
  have c: "extract_keywords sample_unicode [titled (ascii ''Python3 tips'')] 3
      = [(ascii ''tips'', 1)]"
    by code_simp
  have s: "spec_extract_keywords sample_unicode [titled (ascii ''Python3 tips'')] 3
      = [(ascii ''python'', 1), (ascii ''tips'', 1)]"
    by code_simp
  have n: "[(ascii ''tips'', 1::nat)] \<noteq> [(ascii ''python'', 1), (ascii ''tips'', 1)]"
    by simp
  show ?thesis unfolding c s using n by simp
qed

text \<open>
  C8, amended: the tokens are the whole words of the lower-cased, space-joined titles that
  consist of ASCII letters only and have at least three of them, where a whole word is a
  maximal run of word characters (ASCII letters, digits, the underscore and every code point
  outside ASCII that \<open>str.isalnum\<close> accepts) and the lower-casing is that of \<open>str.lower\<close>; so a
  run of letters that touches a digit, an underscore or a letter outside ASCII is no token.
  The stop words are discarded; the result is the first \<open>top_n\<close> entries of a ranking that
  holds every remaining word once, with its number of occurrences, in the order of falling
  counts, words of equal count in the order of first encounter; for the three example titles
  and \<open>top_n = 3\<close> it is \<open>best: 2, python: 2, tips: 2\<close>. This holds for every list of posts,
  every text and whatever the Unicode tables \<open>u\<close> of the interpreter are.
\<close>

theorem extract_keywords_ranking:
  "findall_words u None text = filter keyword_shape (runs (is_word u) text)
   \<and> title_words u posts =
       filter (\<lambda>w. w \<notin> set STOP_WORDS)
         (findall_words u None (lower u (join_space (map post_title posts))))
   \<and> extract_keywords u posts top_n = take (nat top_n) (ranked (title_words u posts))
   \<and> mset (ranked (title_words u posts)) =
       mset (map (\<lambda>w. (w, count_list (title_words u posts) w))
         (first_seen (title_words u posts)))
   \<and> sorted_wrt (\<lambda>a b. snd b \<le> snd a) (ranked (title_words u posts))
   \<and> (\<forall>k. filter (\<lambda>a. snd a = k) (ranked (title_words u posts)) =
          map (\<lambda>w. (w, k))
            (filter (\<lambda>w. count_list (title_words u posts) w = k)
              (first_seen (title_words u posts))))
   \<and> set (extract_keywords u example_posts 3) =
       {(ascii ''best'', 2), (ascii ''python'', 2), (ascii ''tips'', 2)}"
proof (intro conjI allI)
  show "findall_words u None text = filter keyword_shape (runs (is_word u) text)"
    by (rule findall_words_whole_words)
  show "title_words u posts =
       filter (\<lambda>w. w \<notin> set STOP_WORDS)
         (findall_words u None (lower u (join_space (map post_title posts))))"
    by (rule title_words_def)
  show "extract_keywords u posts top_n = take (nat top_n) (ranked (title_words u posts))"
    by (simp add: extract_keywords_def most_common_ranked)
  show "mset (ranked (title_words u posts)) =
       mset (map (\<lambda>w. (w, count_list (title_words u posts) w))
         (first_seen (title_words u posts)))"
    by (rule ranked_mset)
  show "sorted_wrt (\<lambda>a b. snd b \<le> snd a) (ranked (title_words u posts))"
    by (rule ranked_falling)
  show "filter (\<lambda>a. snd a = k) (ranked (title_words u posts)) =
          map (\<lambda>w. (w, k))
            (filter (\<lambda>w. count_list (title_words u posts) w = k)
              (first_seen (title_words u posts)))"
    for k by (rule ranked_ties)
  show "set (extract_keywords u example_posts 3) =
       {(ascii ''best'', 2), (ascii ''python'', 2), (ascii ''tips'', 2)}"
    unfolding extract_keywords_example by simp
qed

theorem extract_keywords_ranking_witness:
  "findall_words sample_unicode None
       (ascii ''best python3 tips_x caf'' @ [233] @ ascii '' a1 abc, the-end'')
     = [ascii ''best'', ascii ''abc'', ascii ''the'', ascii ''end'']
   \<and> title_words sample_unicode example_posts =
       [ascii ''best'', ascii ''python'', ascii ''tips'', ascii ''python'', ascii ''tips'',
        ascii ''tricks'', ascii ''best'', ascii ''practices'']
   \<and> ranked (title_words sample_unicode example_posts) =
       [(ascii ''best'', 2), (ascii ''python'', 2), (ascii ''tips'', 2), (ascii ''tricks'', 1),
        (ascii ''practices'', 1)]
   \<and> extract_keywords sample_unicode example_posts 2 = [(ascii ''best'', 2), (ascii ''python'', 2)]"
proof -
  note t = extract_keywords_ranking [of sample_unicode
      "ascii ''best python3 tips_x caf'' @ [233] @ ascii '' a1 abc, the-end''" example_posts 2]
  have r: "filter keyword_shape (runs (is_word sample_unicode)
        (ascii ''best python3 tips_x caf'' @ [233] @ ascii '' a1 abc, the-end''))
      = [ascii ''best'', ascii ''abc'', ascii ''the'', ascii ''end'']"
    by code_simp
  have w: "title_words sample_unicode example_posts =
       [ascii ''best'', ascii ''python'', ascii ''tips'', ascii ''python'', ascii ''tips'',
        ascii ''tricks'', ascii ''best'', ascii ''practices'']"
    by code_simp
  have k: "ranked (title_words sample_unicode example_posts) =
       [(ascii ''best'', 2), (ascii ''python'', 2), (ascii ''tips'', 2), (ascii ''tricks'', 1),
        (ascii ''practices'', 1)]"
    by code_simp
  have f: "findall_words sample_unicode None
       (ascii ''best python3 tips_x caf'' @ [233] @ ascii '' a1 abc, the-end'')
      = [ascii ''best'', ascii ''abc'', ascii ''the'', ascii ''end'']"
    using t [THEN conjunct1] unfolding r .
  have e: "extract_keywords sample_unicode example_posts 2
      = take (nat 2) (ranked (title_words sample_unicode example_posts))"
    using t [THEN conjunct2, THEN conjunct2, THEN conjunct1] .
  have "extract_keywords sample_unicode example_posts 2 = [(ascii ''best'', 2), (ascii ''python'', 2)]"
    unfolding e k by simp
  with f w k show ?thesis by (intro conjI)
qed

section \<open>The stored record (Model/db_context.py and its record type)\<close>

text \<open>
  A row of the table behind \<open>RedditSource\<close>, one field per column that \<open>DBContext\<close> reads or
  writes; the primary key \<open>id\<close> is called \<open>row_id\<close>. Timestamps are readings of the clock, as
  integers. The column \<open>score_dictionary\<close> holds the encoded metrics: \<open>None\<close> is an empty
  column, \<open>Some d\<close> the encoding of the mapping \<open>d\<close>, a list of key and value pairs.
\<close>

type_synonym score_dict = "(string \<times> real) list"

record RedditSource =
  row_id :: int
  source :: string
  source_id :: string
  title :: string
  description :: "string option"
  tags :: "string option"
  score :: "real option"
  score_dictionary :: "score_dict option"
  processed :: bool
  created_at :: int
  updated_at :: int

text \<open>
  Modelled from the spec: the methods \<open>set_score_dict\<close> and \<open>get_score_dict\<close> of the record type,
  whose file is not among the sources. The mapping is serialized into the column at write
  time and deserialized at read time; an absent column decodes to the empty mapping.
\<close>

definition set_score_dict :: "score_dict \<Rightarrow> RedditSource \<Rightarrow> RedditSource" where
  "set_score_dict d record = record\<lparr>score_dictionary := Some d\<rparr>"

definition get_score_dict :: "RedditSource \<Rightarrow> score_dict" where
  "get_score_dict record = (case score_dictionary record of None \<Rightarrow> [] | Some d \<Rightarrow> d)"

text \<open>
  Modelled from the spec: the column defaults of the record type. The store assigns the
  surrogate \<open>id\<close> (here the largest id in use plus one, the rule of the SQLite engine that
  \<open>DBContext\<close> opens), \<open>processed\<close> starts as false, \<open>created_at\<close> is set once at creation and
  \<open>updated_at\<close> is refreshed on every mutating operation, that is whenever a row is written.
\<close>

definition next_row_id :: "RedditSource list \<Rightarrow> int" where
  "next_row_id rows = fold max (map row_id rows) 0 + 1"

definition insert_defaults :: "RedditSource list \<Rightarrow> int \<Rightarrow> RedditSource \<Rightarrow> RedditSource" where
  "insert_defaults rows now record =
     record\<lparr>row_id := next_row_id rows, processed := False, created_at := now, updated_at := now\<rparr>"

definition touch_updated_at :: "int \<Rightarrow> RedditSource \<Rightarrow> RedditSource" where
  "touch_updated_at now record = record\<lparr>updated_at := now\<rparr>"

text \<open>
  Modelled from the spec: the uniqueness constraint of the table over \<open>(source, source_id)\<close>,
  which makes the commit of \<open>create\<close> raise \<open>IntegrityError\<close>.
\<close>

definition natural_key :: "RedditSource \<Rightarrow> string \<times> string" where
  "natural_key record = (source record, source_id record)"

definition violates_unique :: "RedditSource list \<Rightarrow> RedditSource \<Rightarrow> bool" where
  "violates_unique rows record \<longleftrightarrow> natural_key record \<in> set (map natural_key rows)"

section \<open>DBContext\<close>

text \<open>
  The database is the list of its rows in the order of insertion. Every operation takes the
  database (and the clock reading, where it writes a timestamp) and returns its result with
  the database after the call. Python's \<open>None\<close> result is \<open>None\<close>. Faults of the storage engine
  other than the uniqueness violation are outside the model.
\<close>

definition create ::
  "RedditSource list \<Rightarrow> int \<Rightarrow> string \<Rightarrow> string \<Rightarrow> string \<Rightarrow> string option \<Rightarrow> string option
     \<Rightarrow> real option \<Rightarrow> score_dict option \<Rightarrow> RedditSource option \<times> RedditSource list" where
  "create rows now src sid ttl desc tgs scr dict =
     (let record = \<lparr>row_id = 0, source = src, source_id = sid, title = ttl,
                     description = desc, tags = tgs, score = scr, score_dictionary = None,
                     processed = False, created_at = now, updated_at = now\<rparr>;
          record = (case dict of
                      None \<Rightarrow> record
                    | Some d \<Rightarrow> if d \<noteq> [] then set_score_dict d record else record)
      in if violates_unique rows record then (None, rows)
         else let record = insert_defaults rows now record
              in (Some record, rows @ [record]))"

definition read :: "RedditSource list \<Rightarrow> string \<Rightarrow> string \<Rightarrow> RedditSource option" where
  "read rows src sid = find (\<lambda>r. source r = src \<and> source_id r = sid) rows"

definition read_by_id :: "RedditSource list \<Rightarrow> int \<Rightarrow> RedditSource option" where
  "read_by_id rows record_id = find (\<lambda>r. row_id r = record_id) rows"

text \<open>The row with the primary key of a changed record is replaced.\<close>

definition commit_row :: "RedditSource \<Rightarrow> RedditSource list \<Rightarrow> RedditSource list" where
  "commit_row record rows = map (\<lambda>r. if row_id r = row_id record then record else r) rows"

text \<open>
  \<open>session.commit()\<close> and \<open>session.refresh(record)\<close> for a record that was loaded from the table
  and then assigned to. \<open>DBContext\<close> never assigns \<open>updated_at\<close>; a commit that finds no
  attribute different from the loaded row writes nothing, and the record and the table stay
  as they are. Modelled from the spec: when the commit does write the row, the record type
  refreshes \<open>updated_at\<close>.
\<close>

definition commit_changes ::
  "int \<Rightarrow> RedditSource \<Rightarrow> RedditSource \<Rightarrow> RedditSource list
     \<Rightarrow> RedditSource \<times> RedditSource list" where
  "commit_changes now loaded record rows =
     (if record = loaded then (loaded, rows)
      else let record = touch_updated_at now record
           in (record, commit_row record rows))"

definition update ::
  "RedditSource list \<Rightarrow> int \<Rightarrow> string \<Rightarrow> string \<Rightarrow> string option \<Rightarrow> string option
     \<Rightarrow> string option \<Rightarrow> real option \<Rightarrow> score_dict option \<Rightarrow> bool option
     \<Rightarrow> RedditSource option \<times> RedditSource list" where
  "update rows now src sid ttl desc tgs scr dict proc =
     (case find (\<lambda>r. source r = src \<and> source_id r = sid) rows of
        None \<Rightarrow> (None, rows)
      | Some loaded \<Rightarrow>
          let record = (case ttl of None \<Rightarrow> loaded | Some v \<Rightarrow> loaded\<lparr>title := v\<rparr>);
              record = (case desc of None \<Rightarrow> record | Some v \<Rightarrow> record\<lparr>description := Some v\<rparr>);
              record = (case tgs of None \<Rightarrow> record | Some v \<Rightarrow> record\<lparr>tags := Some v\<rparr>);
              record = (case scr of None \<Rightarrow> record | Some v \<Rightarrow> record\<lparr>score := Some v\<rparr>);
              record = (case dict of None \<Rightarrow> record | Some d \<Rightarrow> set_score_dict d record);
              record = (case proc of None \<Rightarrow> record | Some v \<Rightarrow> record\<lparr>processed := v\<rparr>)
          in case commit_changes now loaded record rows of
               (record, rows) \<Rightarrow> (Some record, rows))"

definition upsert ::
  "RedditSource list \<Rightarrow> int \<Rightarrow> string \<Rightarrow> string \<Rightarrow> string \<Rightarrow> string option \<Rightarrow> string option
     \<Rightarrow> real option \<Rightarrow> score_dict option \<Rightarrow> RedditSource option \<times> RedditSource list" where
  "upsert rows now src sid ttl desc tgs scr dict =
     (case read rows src sid of
        Some existing \<Rightarrow> update rows now src sid (Some ttl) desc tgs scr dict None
      | None \<Rightarrow> create rows now src sid ttl desc tgs scr dict)"

definition delete :: "RedditSource list \<Rightarrow> string \<Rightarrow> string \<Rightarrow> bool \<times> RedditSource list" where
  "delete rows src sid =
     (case find (\<lambda>r. source r = src \<and> source_id r = sid) rows of
        None \<Rightarrow> (False, rows)
      | Some record \<Rightarrow> (True, filter (\<lambda>r. row_id r \<noteq> row_id record) rows))"

definition count :: "RedditSource list \<Rightarrow> int" where
  "count rows = int (length rows)"

definition count_by_source :: "RedditSource list \<Rightarrow> string \<Rightarrow> int" where
  "count_by_source rows src = int (length (filter (\<lambda>r. source r = src) rows))"

definition clear_all :: "RedditSource list \<Rightarrow> int \<times> RedditSource list" where
  "clear_all rows = (int (length rows), [])"

text \<open>
  The states the engine can be in: primary keys are distinct and so are natural keys.
\<close>

definition store_ok :: "RedditSource list \<Rightarrow> bool" where
  "store_ok rows \<longleftrightarrow> distinct (map row_id rows) \<and> distinct (map natural_key rows)"

definition with_key :: "string \<Rightarrow> string \<Rightarrow> RedditSource list \<Rightarrow> RedditSource list" where
  "with_key src sid rows = filter (\<lambda>r. source r = src \<and> source_id r = sid) rows"

section \<open>DBContext: lookups and the uniqueness constraint\<close>

lemma read_None_iff:
  "read rows src sid = None \<longleftrightarrow> (src, sid) \<notin> set (map natural_key rows)"
  by (auto simp add: read_def find_None_iff natural_key_def)

lemma read_SomeD:
  assumes "read rows src sid = Some r"
  shows "r \<in> set rows \<and> source r = src \<and> source_id r = sid"
  using assms unfolding read_def find_Some_iff by auto

lemma with_key_empty:
  "read rows src sid = None \<Longrightarrow> with_key src sid rows = []"
  by (auto simp add: read_def find_None_iff with_key_def filter_empty_conv)

lemma with_key_single:
  assumes "distinct (map natural_key rows)" and "r \<in> set rows" and "natural_key r = (src, sid)"
  shows "with_key src sid rows = [r]"
  using assms
proof (induction rows)
  case Nil
  then show ?case by simp
next
  case (Cons x xs)
  show ?case
  proof (cases "x = r")
    case True
    from Cons.prems(1) have "natural_key x \<notin> natural_key ` set xs" by simp
    with True Cons.prems(3) have "\<forall>y \<in> set xs. \<not> (source y = src \<and> source_id y = sid)"
      by (force simp add: natural_key_def)
    then have "filter (\<lambda>r. source r = src \<and> source_id r = sid) xs = []"
      by (simp add: filter_empty_conv)
    with True Cons.prems(3) show ?thesis by (simp add: with_key_def natural_key_def)
  next
    case False
    with Cons.prems have r: "r \<in> set xs" and d: "distinct (map natural_key xs)" by simp_all
    from Cons.prems(1) r have "natural_key x \<noteq> natural_key r" by force
    with Cons.prems(3) have "\<not> (source x = src \<and> source_id x = sid)"
      by (auto simp add: natural_key_def)
    with Cons.IH [OF d r Cons.prems(3)] show ?thesis by (simp add: with_key_def)
  qed
qed

lemma read_with_key:
  assumes "store_ok rows" and "read rows src sid = Some r"
  shows "with_key src sid rows = [r]"
proof -
  from read_SomeD [OF assms(2)] have "r \<in> set rows" "natural_key r = (src, sid)"
    by (simp_all add: natural_key_def)
  with assms(1) show ?thesis by (simp add: store_ok_def with_key_single)
qed

lemma fold_max_ge: "(a::int) \<le> fold max xs a"
  by (induction xs arbitrary: a) (auto intro: order_trans [OF max.cobounded2])

lemma fold_max_member: "x \<in> set xs \<Longrightarrow> (x::int) \<le> fold max xs a"
proof (induction xs arbitrary: a)
  case Nil
  then show ?case by simp
next
  case (Cons y ys)
  show ?case
  proof (cases "x = y")
    case True
    have "max y a \<le> fold max ys (max y a)" by (rule fold_max_ge)
    with True show ?thesis by simp
  next
    case False
    with Cons.prems have "x \<in> set ys" by simp
    from Cons.IH [OF this] show ?thesis by simp
  qed
qed

lemma next_row_id_fresh: "r \<in> set rows \<Longrightarrow> row_id r < next_row_id rows"
  using fold_max_member [of "row_id r" "map row_id rows" 0] by (simp add: next_row_id_def)

section \<open>DBContext: create\<close>

definition created_record ::
  "RedditSource list \<Rightarrow> int \<Rightarrow> string \<Rightarrow> string \<Rightarrow> string \<Rightarrow> string option \<Rightarrow> string option
     \<Rightarrow> real option \<Rightarrow> score_dict option \<Rightarrow> RedditSource" where
  "created_record rows now src sid ttl desc tgs scr dict =
     \<lparr>row_id = next_row_id rows, source = src, source_id = sid, title = ttl,
      description = desc, tags = tgs, score = scr,
      score_dictionary = (case dict of None \<Rightarrow> None | Some d \<Rightarrow> if d \<noteq> [] then Some d else None),
      processed = False, created_at = now, updated_at = now\<rparr>"

lemma create_eq:
  "create rows now src sid ttl desc tgs scr dict =
     (if read rows src sid = None
      then (Some (created_record rows now src sid ttl desc tgs scr dict),
            rows @ [created_record rows now src sid ttl desc tgs scr dict])
      else (None, rows))"
proof -
  have v: "violates_unique rows
      (case dict of
         None \<Rightarrow> \<lparr>row_id = 0, source = src, source_id = sid, title = ttl,
                     description = desc, tags = tgs, score = scr, score_dictionary = None,
                     processed = False, created_at = now, updated_at = now\<rparr>
       | Some d \<Rightarrow> if d \<noteq> [] then set_score_dict d \<lparr>row_id = 0, source = src, source_id = sid, title = ttl,
                     description = desc, tags = tgs, score = scr, score_dictionary = None,
                     processed = False, created_at = now, updated_at = now\<rparr>
                   else \<lparr>row_id = 0, source = src, source_id = sid, title = ttl,
                     description = desc, tags = tgs, score = scr, score_dictionary = None,
                     processed = False, created_at = now, updated_at = now\<rparr>)
      \<longleftrightarrow> read rows src sid \<noteq> None"
    unfolding read_None_iff
    by (simp add: violates_unique_def natural_key_def set_score_dict_def split: option.splits)
  show ?thesis
    unfolding create_def Let_def v
    by (simp add: created_record_def insert_defaults_def set_score_dict_def split: option.splits)
qed

lemma get_score_dict_created:
  "get_score_dict (created_record rows now src sid ttl desc tgs scr dict) =
     (case dict of None \<Rightarrow> [] | Some d \<Rightarrow> d)"
  by (simp add: get_score_dict_def created_record_def split: option.splits)

lemma store_ok_append:
  assumes "store_ok rows" and "read rows (source r) (source_id r) = None"
    and "row_id r = next_row_id rows"
  shows "store_ok (rows @ [r])"
proof -
  from assms(2) have "natural_key r \<notin> set (map natural_key rows)"
    unfolding read_None_iff by (simp add: natural_key_def)
  moreover have "row_id r \<notin> set (map row_id rows)"
    using next_row_id_fresh [of _ rows] assms(3) by force
  ultimately show ?thesis using assms(1) by (simp add: store_ok_def)
qed

lemma read_append_new:
  assumes "read rows src sid = None" and "source r = src" and "source_id r = sid"
  shows "read (rows @ [r]) src sid = Some r"
  using assms unfolding read_def by (induction rows) (auto split: if_splits)

definition sample_row :: RedditSource where
  "sample_row =
     \<lparr>row_id = 1, source = ''reddit'', source_id = ''abc'', title = ''T0'',
      description = Some ''D0'', tags = Some ''python'', score = Some 10,
      score_dictionary = Some [(''upvotes'', 1500), (''comments'', 250)],
      processed = False, created_at = 100, updated_at = 100\<rparr>"

lemma store_ok_sample: "store_ok [sample_row]"
  by (simp add: store_ok_def)

lemma store_ok_empty: "store_ok []"
  by (simp add: store_ok_def)

text \<open>
  C3, as stated, for every store state: when the store already holds a record with the key,
  the first of the two calls is refused as well, and the one stored record holds neither
  call's fields.
\<close>

theorem create_twice_counterexample:
  "store_ok [sample_row]
   \<and> create [sample_row] 200 ''reddit'' ''abc'' ''T1'' None None None None = (None, [sample_row])
   \<and> create [sample_row] 300 ''reddit'' ''abc'' ''T2'' None None None None = (None, [sample_row])
   \<and> map title (with_key ''reddit'' ''abc'' [sample_row]) = [''T0'']
   \<and> ''T0'' \<noteq> ''T1''"
proof -
  have "create [sample_row] now ''reddit'' ''abc'' ttl None None None None = (None, [sample_row])"
    for now ttl
    by (simp add: create_eq read_def sample_row_def)
  moreover have "map title (with_key ''reddit'' ''abc'' [sample_row]) = [''T0'']"
    by (simp add: with_key_def sample_row_def)
  ultimately show ?thesis using store_ok_sample by simp
qed

text \<open>
  C3, amended: in every store state two \<open>create\<close> calls with the same key leave exactly one
  stored record with that key; the second call returns \<open>None\<close> (the conflict outcome, not an
  exception) and leaves the store as it was. The stored record holds the first call's fields
  when no record had the key before the first call; otherwise the first call is a conflict
  too and the store is unchanged by both.
\<close>

theorem create_twice:
  assumes "store_ok rows"
    and "create rows now1 src sid t1 d1 g1 s1 m1 = (r1, rows1)"
    and "create rows1 now2 src sid t2 d2 g2 s2 m2 = (r2, rows2)"
  shows "r2 = None \<and> rows2 = rows1 \<and> length (with_key src sid rows2) = 1 \<and> store_ok rows2
     \<and> (read rows src sid = None \<longrightarrow>
          (\<exists>record. r1 = Some record \<and> rows1 = rows @ [record]
             \<and> with_key src sid rows2 = [record]
             \<and> source record = src \<and> source_id record = sid
             \<and> title record = t1 \<and> description record = d1 \<and> tags record = g1
             \<and> score record = s1
             \<and> get_score_dict record = (case m1 of None \<Rightarrow> [] | Some d \<Rightarrow> d)
             \<and> \<not> processed record \<and> created_at record = now1 \<and> updated_at record = now1))
     \<and> (read rows src sid \<noteq> None \<longrightarrow> r1 = None \<and> rows2 = rows)"
proof (cases "read rows src sid")
  case None
  define rec where "rec = created_record rows now1 src sid t1 d1 g1 s1 m1"
  let ?rec = rec
  from None assms(2) have 1: "r1 = Some rec" "rows1 = rows @ [rec]"
    by (simp_all add: create_eq rec_def)
  have k: "source rec = src" "source_id rec = sid"
    by (simp_all add: rec_def created_record_def)
  have rd: "read rows1 src sid = Some rec"
    unfolding 1 by (rule read_append_new [OF None k])
  with assms(3) have 2: "r2 = None" "rows2 = rows1" by (simp_all add: create_eq)
  have ok: "store_ok rows1"
    unfolding 1 by (rule store_ok_append [OF assms(1)]) (simp_all add: k None, simp add: rec_def created_record_def)
  from read_with_key [OF ok rd] have w: "with_key src sid rows1 = [rec]" .
  have f: "title rec = t1 \<and> description rec = d1 \<and> tags rec = g1
      \<and> score rec = s1 \<and> \<not> processed rec \<and> created_at rec = now1
      \<and> updated_at rec = now1"
    by (simp add: rec_def created_record_def)
  have g: "get_score_dict rec = (case m1 of None \<Rightarrow> [] | Some d \<Rightarrow> d)"
    unfolding rec_def by (rule get_score_dict_created)
  from None 1 2 ok w k f g show ?thesis by simp
next
  case (Some old)
  with assms(2) have 1: "r1 = None" "rows1 = rows" by (simp_all add: create_eq)
  with Some assms(3) have 2: "r2 = None" "rows2 = rows" by (simp_all add: create_eq)
  from read_with_key [OF assms(1) Some] have "with_key src sid rows = [old]" .
  with Some 1 2 assms(1) show ?thesis by simp
qed

theorem create_twice_witness:
  "store_ok []
   \<and> create [] 200 ''reddit'' ''abc'' ''T1'' (Some ''D1'') None (Some 5) (Some [(''upvotes'', 3)])
       = (Some \<lparr>row_id = 1, source = ''reddit'', source_id = ''abc'', title = ''T1'',
                 description = Some ''D1'', tags = None, score = Some 5,
                 score_dictionary = Some [(''upvotes'', 3)],
                 processed = False, created_at = 200, updated_at = 200\<rparr>,
          [\<lparr>row_id = 1, source = ''reddit'', source_id = ''abc'', title = ''T1'',
                 description = Some ''D1'', tags = None, score = Some 5,
                 score_dictionary = Some [(''upvotes'', 3)],
                 processed = False, created_at = 200, updated_at = 200\<rparr>])
   \<and> create [\<lparr>row_id = 1, source = ''reddit'', source_id = ''abc'', title = ''T1'',
                 description = Some ''D1'', tags = None, score = Some 5,
                 score_dictionary = Some [(''upvotes'', 3)],
                 processed = False, created_at = 200, updated_at = 200\<rparr>]
         300 ''reddit'' ''abc'' ''T2'' None None None None
       = (None,
          [\<lparr>row_id = 1, source = ''reddit'', source_id = ''abc'', title = ''T1'',
                 description = Some ''D1'', tags = None, score = Some 5,
                 score_dictionary = Some [(''upvotes'', 3)],
                 processed = False, created_at = 200, updated_at = 200\<rparr>])"
proof -
  define r where "r = \<lparr>row_id = 1, source = ''reddit'', source_id = ''abc'', title = ''T1'',
                 description = Some ''D1'', tags = None, score = Some (5::real),
                 score_dictionary = Some [(''upvotes'', 3::real)],
                 processed = False, created_at = 200, updated_at = 200\<rparr>"
  have c1: "create [] 200 ''reddit'' ''abc'' ''T1'' (Some ''D1'') None (Some 5) (Some [(''upvotes'', 3)])
      = (Some r, [r])"
    by (simp add: create_eq read_def created_record_def next_row_id_def r_def)
  obtain r2 rows2 where c2: "create [r] 300 ''reddit'' ''abc'' ''T2'' None None None None = (r2, rows2)"
    by (cases "create [r] 300 ''reddit'' ''abc'' ''T2'' None None None None") blast
  have rd: "read [] ''reddit'' ''abc'' = None" by (simp add: read_def)
  note t = create_twice [OF store_ok_empty c1 c2]
  from t have 2: "r2 = None \<and> rows2 = [r]" by blast
  from t rd have "\<exists>x. Some r = Some x \<and> with_key ''reddit'' ''abc'' rows2 = [x] \<and> title x = ''T1''"
    by blast
  then have 3: "with_key ''reddit'' ''abc'' rows2 = [r] \<and> title r = ''T1''" by simp
  from c1 c2 2 3 show ?thesis unfolding r_def by (simp add: store_ok_empty)
qed

section \<open>DBContext: update\<close>

text \<open>The record after the assignments of \<open>update\<close>, and the record that the commit leaves.\<close>

definition assigned_record ::
  "string option \<Rightarrow> string option \<Rightarrow> string option \<Rightarrow> real option
     \<Rightarrow> score_dict option \<Rightarrow> bool option \<Rightarrow> RedditSource \<Rightarrow> RedditSource" where
  "assigned_record ttl desc tgs scr dict proc old =
     old\<lparr>title := (case ttl of None \<Rightarrow> title old | Some v \<Rightarrow> v),
         description := (case desc of None \<Rightarrow> description old | Some v \<Rightarrow> Some v),
         tags := (case tgs of None \<Rightarrow> tags old | Some v \<Rightarrow> Some v),
         score := (case scr of None \<Rightarrow> score old | Some v \<Rightarrow> Some v),
         score_dictionary := (case dict of None \<Rightarrow> score_dictionary old | Some d \<Rightarrow> Some d),
         processed := (case proc of None \<Rightarrow> processed old | Some v \<Rightarrow> v)\<rparr>"

definition updated_record ::
  "int \<Rightarrow> string option \<Rightarrow> string option \<Rightarrow> string option \<Rightarrow> real option
     \<Rightarrow> score_dict option \<Rightarrow> bool option \<Rightarrow> RedditSource \<Rightarrow> RedditSource" where
  "updated_record now ttl desc tgs scr dict proc old =
     (if assigned_record ttl desc tgs scr dict proc old = old then old
      else (assigned_record ttl desc tgs scr dict proc old)\<lparr>updated_at := now\<rparr>)"

lemma update_assignments:
  "case_option (\<lambda>r. r) (\<lambda>v r. r\<lparr>processed := v\<rparr>) proc
     (case_option (\<lambda>r. r) (\<lambda>d r. set_score_dict d r) dict
       (case_option (\<lambda>r. r) (\<lambda>v r. r\<lparr>score := Some v\<rparr>) scr
         (case_option (\<lambda>r. r) (\<lambda>v r. r\<lparr>tags := Some v\<rparr>) tgs
           (case_option (\<lambda>r. r) (\<lambda>v r. r\<lparr>description := Some v\<rparr>) desc
             (case_option (\<lambda>r. r) (\<lambda>v r. r\<lparr>title := v\<rparr>) ttl old)))))
   = assigned_record ttl desc tgs scr dict proc old"
  by (cases ttl; cases desc; cases tgs; cases scr; cases dict; cases proc)
     (simp_all add: assigned_record_def set_score_dict_def)

lemma commit_row_replace:
  assumes "distinct (map row_id rows)" and "old \<in> set rows" and "row_id upd = row_id old"
  shows "commit_row upd rows = map (\<lambda>r. if r = old then upd else r) rows"
proof -
  from assms(1) have inj: "inj_on row_id (set rows)" by (simp add: distinct_map)
  have "(row_id r = row_id upd) = (r = old)" if "r \<in> set rows" for r
    using inj that assms(2,3) by (auto dest: inj_onD)
  then show ?thesis unfolding commit_row_def by (intro map_cong) simp_all
qed

lemma commit_row_same:
  assumes "store_ok rows" and "old \<in> set rows"
  shows "commit_row old rows = rows"
proof -
  from assms(1) have "distinct (map row_id rows)" by (simp add: store_ok_def)
  from commit_row_replace [OF this assms(2) refl] show ?thesis by (simp add: map_idI)
qed

lemma update_eq:
  assumes "store_ok rows"
  shows "update rows now src sid ttl desc tgs scr dict proc =
     (case read rows src sid of
        None \<Rightarrow> (None, rows)
      | Some old \<Rightarrow>
          (Some (updated_record now ttl desc tgs scr dict proc old),
           commit_row (updated_record now ttl desc tgs scr dict proc old) rows))"
proof (cases "read rows src sid")
  case None
  then show ?thesis by (simp add: update_def read_def)
next
  case (Some old)
  have "update rows now src sid ttl desc tgs scr dict proc =
      (case commit_changes now old
         (case_option (\<lambda>r. r) (\<lambda>v r. r\<lparr>processed := v\<rparr>) proc
           (case_option (\<lambda>r. r) (\<lambda>d r. set_score_dict d r) dict
             (case_option (\<lambda>r. r) (\<lambda>v r. r\<lparr>score := Some v\<rparr>) scr
               (case_option (\<lambda>r. r) (\<lambda>v r. r\<lparr>tags := Some v\<rparr>) tgs
                 (case_option (\<lambda>r. r) (\<lambda>v r. r\<lparr>description := Some v\<rparr>) desc
                   (case_option (\<lambda>r. r) (\<lambda>v r. r\<lparr>title := v\<rparr>) ttl old)))))) rows of
         (r, rows') \<Rightarrow> (Some r, rows'))"
    using Some
    by (cases ttl; cases desc; cases tgs; cases scr; cases dict; cases proc)
       (simp_all add: update_def read_def Let_def)
  then have u: "update rows now src sid ttl desc tgs scr dict proc =
      (case commit_changes now old (assigned_record ttl desc tgs scr dict proc old) rows of
         (r, rows') \<Rightarrow> (Some r, rows'))"
    unfolding update_assignments .
  from read_SomeD [OF Some] have "old \<in> set rows" by simp
  from commit_row_same [OF assms this] have same: "commit_row old rows = rows" .
  show ?thesis
  proof (cases "assigned_record ttl desc tgs scr dict proc old = old")
    case True
    with u Some same show ?thesis
      by (simp add: commit_changes_def updated_record_def)
  next
    case False
    with u Some show ?thesis
      by (simp add: commit_changes_def updated_record_def touch_updated_at_def Let_def)
  qed
qed

lemma updated_record_keys:
  "row_id (updated_record now ttl desc tgs scr dict proc old) = row_id old"
  "source (updated_record now ttl desc tgs scr dict proc old) = source old"
  "source_id (updated_record now ttl desc tgs scr dict proc old) = source_id old"
  "created_at (updated_record now ttl desc tgs scr dict proc old) = created_at old"
  by (simp_all add: updated_record_def assigned_record_def)

lemma assigned_record_fields:
  "title (assigned_record ttl desc tgs scr dict proc old) =
     (case ttl of None \<Rightarrow> title old | Some v \<Rightarrow> v)"
  "description (assigned_record ttl desc tgs scr dict proc old) =
     (case desc of None \<Rightarrow> description old | Some v \<Rightarrow> Some v)"
  "tags (assigned_record ttl desc tgs scr dict proc old) =
     (case tgs of None \<Rightarrow> tags old | Some v \<Rightarrow> Some v)"
  "score (assigned_record ttl desc tgs scr dict proc old) =
     (case scr of None \<Rightarrow> score old | Some v \<Rightarrow> Some v)"
  "score_dictionary (assigned_record ttl desc tgs scr dict proc old) =
     (case dict of None \<Rightarrow> score_dictionary old | Some d \<Rightarrow> Some d)"
  "processed (assigned_record ttl desc tgs scr dict proc old) =
     (case proc of None \<Rightarrow> processed old | Some v \<Rightarrow> v)"
  by (simp_all add: assigned_record_def)

lemma updated_record_fields:
  "title (updated_record now ttl desc tgs scr dict proc old) =
     (case ttl of None \<Rightarrow> title old | Some v \<Rightarrow> v)"
  "description (updated_record now ttl desc tgs scr dict proc old) =
     (case desc of None \<Rightarrow> description old | Some v \<Rightarrow> Some v)"
  "tags (updated_record now ttl desc tgs scr dict proc old) =
     (case tgs of None \<Rightarrow> tags old | Some v \<Rightarrow> Some v)"
  "score (updated_record now ttl desc tgs scr dict proc old) =
     (case scr of None \<Rightarrow> score old | Some v \<Rightarrow> Some v)"
  "score_dictionary (updated_record now ttl desc tgs scr dict proc old) =
     (case dict of None \<Rightarrow> score_dictionary old | Some d \<Rightarrow> Some d)"
  "processed (updated_record now ttl desc tgs scr dict proc old) =
     (case proc of None \<Rightarrow> processed old | Some v \<Rightarrow> v)"
proof -
  note f = assigned_record_fields [of ttl desc tgs scr dict proc old]
  show "title (updated_record now ttl desc tgs scr dict proc old) =
     (case ttl of None \<Rightarrow> title old | Some v \<Rightarrow> v)"
    using f(1) by (cases "assigned_record ttl desc tgs scr dict proc old = old")
      (simp_all add: updated_record_def)
  show "description (updated_record now ttl desc tgs scr dict proc old) =
     (case desc of None \<Rightarrow> description old | Some v \<Rightarrow> Some v)"
    using f(2) by (cases "assigned_record ttl desc tgs scr dict proc old = old")
      (simp_all add: updated_record_def)
  show "tags (updated_record now ttl desc tgs scr dict proc old) =
     (case tgs of None \<Rightarrow> tags old | Some v \<Rightarrow> Some v)"
    using f(3) by (cases "assigned_record ttl desc tgs scr dict proc old = old")
      (simp_all add: updated_record_def)
  show "score (updated_record now ttl desc tgs scr dict proc old) =
     (case scr of None \<Rightarrow> score old | Some v \<Rightarrow> Some v)"
    using f(4) by (cases "assigned_record ttl desc tgs scr dict proc old = old")
      (simp_all add: updated_record_def)
  show "score_dictionary (updated_record now ttl desc tgs scr dict proc old) =
     (case dict of None \<Rightarrow> score_dictionary old | Some d \<Rightarrow> Some d)"
    using f(5) by (cases "assigned_record ttl desc tgs scr dict proc old = old")
      (simp_all add: updated_record_def)
  show "processed (updated_record now ttl desc tgs scr dict proc old) =
     (case proc of None \<Rightarrow> processed old | Some v \<Rightarrow> v)"
    using f(6) by (cases "assigned_record ttl desc tgs scr dict proc old = old")
      (simp_all add: updated_record_def)
qed

text \<open>The assignments leave the record as it was exactly when the six fields keep their values.\<close>

lemma assigned_record_same_iff:
  "assigned_record ttl desc tgs scr dict proc old = old \<longleftrightarrow>
     title (assigned_record ttl desc tgs scr dict proc old) = title old
     \<and> description (assigned_record ttl desc tgs scr dict proc old) = description old
     \<and> tags (assigned_record ttl desc tgs scr dict proc old) = tags old
     \<and> score (assigned_record ttl desc tgs scr dict proc old) = score old
     \<and> score_dictionary (assigned_record ttl desc tgs scr dict proc old) = score_dictionary old
     \<and> processed (assigned_record ttl desc tgs scr dict proc old) = processed old"
  by (cases old) (simp add: assigned_record_def)

lemma updated_record_updated_at:
  "updated_at (updated_record now ttl desc tgs scr dict proc old) =
     (if title (updated_record now ttl desc tgs scr dict proc old) = title old
         \<and> description (updated_record now ttl desc tgs scr dict proc old) = description old
         \<and> tags (updated_record now ttl desc tgs scr dict proc old) = tags old
         \<and> score (updated_record now ttl desc tgs scr dict proc old) = score old
         \<and> score_dictionary (updated_record now ttl desc tgs scr dict proc old)
             = score_dictionary old
         \<and> processed (updated_record now ttl desc tgs scr dict proc old) = processed old
      then updated_at old else now)"
proof (cases "assigned_record ttl desc tgs scr dict proc old = old")
  case True
  then have "updated_record now ttl desc tgs scr dict proc old = old"
    by (simp add: updated_record_def)
  then show ?thesis by simp
next
  case False
  then have u: "updated_at (updated_record now ttl desc tgs scr dict proc old) = now"
    by (simp add: updated_record_def)
  from False have "\<not> (title (assigned_record ttl desc tgs scr dict proc old) = title old
     \<and> description (assigned_record ttl desc tgs scr dict proc old) = description old
     \<and> tags (assigned_record ttl desc tgs scr dict proc old) = tags old
     \<and> score (assigned_record ttl desc tgs scr dict proc old) = score old
     \<and> score_dictionary (assigned_record ttl desc tgs scr dict proc old) = score_dictionary old
     \<and> processed (assigned_record ttl desc tgs scr dict proc old) = processed old)"
    unfolding assigned_record_same_iff [symmetric] .
  then have nc: "\<not> (title (updated_record now ttl desc tgs scr dict proc old) = title old
         \<and> description (updated_record now ttl desc tgs scr dict proc old) = description old
         \<and> tags (updated_record now ttl desc tgs scr dict proc old) = tags old
         \<and> score (updated_record now ttl desc tgs scr dict proc old) = score old
         \<and> score_dictionary (updated_record now ttl desc tgs scr dict proc old)
             = score_dictionary old
         \<and> processed (updated_record now ttl desc tgs scr dict proc old) = processed old)"
    unfolding updated_record_fields assigned_record_fields .
  show ?thesis unfolding u by (simp only: if_not_P [OF nc])
qed

lemma filter_replace_same_key:
  assumes "natural_key old = k" and "natural_key upd = k"
  shows "filter (\<lambda>r. natural_key r \<noteq> k) (map (\<lambda>r. if r = old then upd else r) rows)
       = filter (\<lambda>r. natural_key r \<noteq> k) rows"
  using assms by (induction rows) auto

lemma find_filter_hd:
  "find P xs = (case filter P xs of [] \<Rightarrow> None | x # _ \<Rightarrow> Some x)"
  by (induction xs) auto

lemma commit_row_facts:
  assumes ok: "store_ok rows" and rd: "read rows src sid = Some old"
    and id: "row_id upd = row_id old" and s: "source upd = src" "source_id upd = sid"
  shows "store_ok (commit_row upd rows)"
    and "with_key src sid (commit_row upd rows) = [upd]"
    and "read (commit_row upd rows) src sid = Some upd"
    and "length (commit_row upd rows) = length rows"
    and "filter (\<lambda>r. natural_key r \<noteq> (src, sid)) (commit_row upd rows)
         = filter (\<lambda>r. natural_key r \<noteq> (src, sid)) rows"
proof -
  from read_SomeD [OF rd] have old: "old \<in> set rows" and ko: "natural_key old = (src, sid)"
    by (simp_all add: natural_key_def)
  from s have kn: "natural_key upd = (src, sid)" by (simp add: natural_key_def)
  from ok have d: "distinct (map row_id rows)" and dk: "distinct (map natural_key rows)"
    by (simp_all add: store_ok_def)
  note rep = commit_row_replace [OF d old id]
  have ids: "map row_id (commit_row upd rows) = map row_id rows"
    unfolding commit_row_def by simp
  have keys: "map natural_key (commit_row upd rows) = map natural_key rows"
    unfolding rep using ko kn by (induction rows) auto
  from d dk show o: "store_ok (commit_row upd rows)" by (simp add: store_ok_def ids keys)
  have "upd \<in> set (commit_row upd rows)" unfolding rep using old by force
  with o kn show w: "with_key src sid (commit_row upd rows) = [upd]"
    by (simp add: store_ok_def with_key_single)
  then show "read (commit_row upd rows) src sid = Some upd"
    unfolding read_def with_key_def find_filter_hd by simp
  show "length (commit_row upd rows) = length rows" by (simp add: commit_row_def)
  show "filter (\<lambda>r. natural_key r \<noteq> (src, sid)) (commit_row upd rows)
         = filter (\<lambda>r. natural_key r \<noteq> (src, sid)) rows"
    unfolding rep by (rule filter_replace_same_key [OF ko kn])
qed

definition t1_d1_row :: RedditSource where
  "t1_d1_row = sample_row\<lparr>title := ''T1'', description := Some ''D1''\<rparr>"

lemma store_ok_t1_d1: "store_ok [t1_d1_row]"
  by (simp add: store_ok_def)

text \<open>
  C4, as stated: \<open>updated_at\<close> is refreshed on every successful update. \<open>update\<close> never assigns
  \<open>updated_at\<close>; a call that supplies no field assigns nothing, so the commit writes nothing
  and the record that is returned has the \<open>updated_at\<close> it had, 100 and not the time 500
  of the call.
\<close>

theorem update_untouched_counterexample:
  "update [t1_d1_row] 500 ''reddit'' ''abc'' None None None None None None
     = (Some t1_d1_row, [t1_d1_row])
   \<and> updated_at t1_d1_row = 100
   \<and> updated_at t1_d1_row \<noteq> 500"
proof -
  have rd: "read [t1_d1_row] ''reddit'' ''abc'' = Some t1_d1_row"
    by (simp add: read_def t1_d1_row_def sample_row_def)
  have a: "assigned_record None None None None None None t1_d1_row = t1_d1_row"
    by (simp add: assigned_record_def)
  have "update [t1_d1_row] 500 ''reddit'' ''abc'' None None None None None None
     = (Some t1_d1_row, [t1_d1_row])"
    by (simp add: update_eq [OF store_ok_t1_d1] rd updated_record_def a commit_row_def)
  moreover have "updated_at t1_d1_row = 100" by (simp add: t1_d1_row_def sample_row_def)
  ultimately show ?thesis by simp
qed

text \<open>
  C4, amended: an update of an existing record overwrites exactly the supplied fields and keeps
  every omitted field (and the id, the natural key and \<open>created_at\<close>); \<open>updated_at\<close> is refreshed
  when the call changes the value of at least one field and keeps its value when it changes
  none; the result is stored in place of the old row and no row of another key is touched;
  when no record has the key the result is \<open>None\<close> and the store is unchanged.
\<close>

theorem update_partial:
  assumes "store_ok rows"
    and "update rows now src sid ttl desc tgs scr dict proc = (res, rows')"
  shows "(read rows src sid = None \<longrightarrow> res = None \<and> rows' = rows)
     \<and> (\<forall>old. read rows src sid = Some old \<longrightarrow>
          (\<exists>upd. res = Some upd \<and> read rows' src sid = Some upd
             \<and> title upd = (case ttl of None \<Rightarrow> title old | Some v \<Rightarrow> v)
             \<and> description upd = (case desc of None \<Rightarrow> description old | Some v \<Rightarrow> Some v)
             \<and> tags upd = (case tgs of None \<Rightarrow> tags old | Some v \<Rightarrow> Some v)
             \<and> score upd = (case scr of None \<Rightarrow> score old | Some v \<Rightarrow> Some v)
             \<and> score_dictionary upd =
                 (case dict of None \<Rightarrow> score_dictionary old | Some d \<Rightarrow> Some d)
             \<and> processed upd = (case proc of None \<Rightarrow> processed old | Some v \<Rightarrow> v)
             \<and> row_id upd = row_id old \<and> source upd = source old
             \<and> source_id upd = source_id old \<and> created_at upd = created_at old
             \<and> updated_at upd =
                 (if title upd = title old \<and> description upd = description old
                     \<and> tags upd = tags old \<and> score upd = score old
                     \<and> score_dictionary upd = score_dictionary old
                     \<and> processed upd = processed old
                  then updated_at old else now)
             \<and> store_ok rows' \<and> length rows' = length rows
             \<and> filter (\<lambda>r. natural_key r \<noteq> (src, sid)) rows'
                 = filter (\<lambda>r. natural_key r \<noteq> (src, sid)) rows))"
proof (rule conjI [OF impI allI [OF impI]])
  assume "read rows src sid = None"
  with assms(2) show "res = None \<and> rows' = rows" by (simp add: update_eq [OF assms(1)])
next
  fix old
  assume rd: "read rows src sid = Some old"
  define upd where "upd = updated_record now ttl desc tgs scr dict proc old"
  from rd assms(2) have r: "res = Some upd" "rows' = commit_row upd rows"
    by (simp_all add: update_eq [OF assms(1)] upd_def)
  from read_SomeD [OF rd] have k: "source old = src" "source_id old = sid" by simp_all
  have id: "row_id upd = row_id old" and s: "source upd = src" "source_id upd = sid"
    by (simp_all add: upd_def updated_record_keys k)
  note c = commit_row_facts [OF assms(1) rd id s]
  show "\<exists>upd. res = Some upd \<and> read rows' src sid = Some upd
             \<and> title upd = (case ttl of None \<Rightarrow> title old | Some v \<Rightarrow> v)
             \<and> description upd = (case desc of None \<Rightarrow> description old | Some v \<Rightarrow> Some v)
             \<and> tags upd = (case tgs of None \<Rightarrow> tags old | Some v \<Rightarrow> Some v)
             \<and> score upd = (case scr of None \<Rightarrow> score old | Some v \<Rightarrow> Some v)
             \<and> score_dictionary upd =
                 (case dict of None \<Rightarrow> score_dictionary old | Some d \<Rightarrow> Some d)
             \<and> processed upd = (case proc of None \<Rightarrow> processed old | Some v \<Rightarrow> v)
             \<and> row_id upd = row_id old \<and> source upd = source old
             \<and> source_id upd = source_id old \<and> created_at upd = created_at old
             \<and> updated_at upd =
                 (if title upd = title old \<and> description upd = description old
                     \<and> tags upd = tags old \<and> score upd = score old
                     \<and> score_dictionary upd = score_dictionary old
                     \<and> processed upd = processed old
                  then updated_at old else now)
             \<and> store_ok rows' \<and> length rows' = length rows
             \<and> filter (\<lambda>r. natural_key r \<noteq> (src, sid)) rows'
                 = filter (\<lambda>r. natural_key r \<noteq> (src, sid)) rows"
  proof (intro exI [of _ upd] conjI)
    show "res = Some upd" by (rule r(1))
    show "read rows' src sid = Some upd" unfolding r(2) by (rule c(3))
    show "store_ok rows'" unfolding r(2) by (rule c(1))
    show "length rows' = length rows" unfolding r(2) by (rule c(4))
    show "filter (\<lambda>r. natural_key r \<noteq> (src, sid)) rows'
        = filter (\<lambda>r. natural_key r \<noteq> (src, sid)) rows"
      unfolding r(2) by (rule c(5))
    show "updated_at upd =
                 (if title upd = title old \<and> description upd = description old
                     \<and> tags upd = tags old \<and> score upd = score old
                     \<and> score_dictionary upd = score_dictionary old
                     \<and> processed upd = processed old
                  then updated_at old else now)"
      unfolding upd_def by (rule updated_record_updated_at)
  qed (simp_all add: upd_def updated_record_keys updated_record_fields)
qed

theorem update_partial_witness:
  "store_ok [t1_d1_row]
   \<and> update [t1_d1_row] 500 ''reddit'' ''abc'' (Some ''T2'') None None None None None =
       (Some (t1_d1_row\<lparr>title := ''T2'', updated_at := 500\<rparr>),
        [t1_d1_row\<lparr>title := ''T2'', updated_at := 500\<rparr>])
   \<and> title (t1_d1_row\<lparr>title := ''T2'', updated_at := 500\<rparr>) = ''T2''
   \<and> description (t1_d1_row\<lparr>title := ''T2'', updated_at := 500\<rparr>) = Some ''D1''
   \<and> update [t1_d1_row] 500 ''reddit'' ''xyz'' (Some ''T2'') None None None None None =
       (None, [t1_d1_row])"
proof -
  note ok = store_ok_t1_d1
  have rd: "read [t1_d1_row] ''reddit'' ''abc'' = Some t1_d1_row"
    by (simp add: read_def t1_d1_row_def sample_row_def)
  have nf: "read [t1_d1_row] ''reddit'' ''xyz'' = None"
    by (simp add: read_def t1_d1_row_def sample_row_def)
  obtain res rows' where
    u: "update [t1_d1_row] 500 ''reddit'' ''abc'' (Some ''T2'') None None None None None = (res, rows')"
    by (cases "update [t1_d1_row] 500 ''reddit'' ''abc'' (Some ''T2'') None None None None None") blast
  obtain res2 rows2 where
    v: "update [t1_d1_row] 500 ''reddit'' ''xyz'' (Some ''T2'') None None None None None = (res2, rows2)"
    by (cases "update [t1_d1_row] 500 ''reddit'' ''xyz'' (Some ''T2'') None None None None None") blast
  from update_partial [OF ok v] nf have 2: "res2 = None \<and> rows2 = [t1_d1_row]" by blast
  note t = update_partial [OF ok u, THEN conjunct2, THEN spec, THEN mp, OF rd]
  then obtain upd where
    n: "res = Some upd" "title upd = ''T2''" "description upd = description t1_d1_row"
    by auto
  have a: "assigned_record (Some ''T2'') None None None None None t1_d1_row
      = t1_d1_row\<lparr>title := ''T2''\<rparr>"
    by (simp add: assigned_record_def)
  have ne: "t1_d1_row\<lparr>title := ''T2''\<rparr> \<noteq> t1_d1_row"
  proof
    assume "t1_d1_row\<lparr>title := ''T2''\<rparr> = t1_d1_row"
    then have "title (t1_d1_row\<lparr>title := ''T2''\<rparr>) = title t1_d1_row" by simp
    then show False by (simp add: t1_d1_row_def)
  qed
  have e: "update [t1_d1_row] 500 ''reddit'' ''abc'' (Some ''T2'') None None None None None =
       (Some (t1_d1_row\<lparr>title := ''T2'', updated_at := 500\<rparr>),
        [t1_d1_row\<lparr>title := ''T2'', updated_at := 500\<rparr>])"
    by (simp add: update_eq [OF ok] rd updated_record_def a ne commit_row_def)
  have "description (t1_d1_row\<lparr>title := ''T2'', updated_at := 500\<rparr>) = Some ''D1''"
    using n u e by (simp add: t1_d1_row_def)
  with ok e v 2 show ?thesis by simp
qed

section \<open>DBContext: upsert\<close>

lemma upsert_eq:
  assumes "store_ok rows"
  shows "upsert rows now src sid ttl desc tgs scr dict =
     (case read rows src sid of
        None \<Rightarrow>
          (Some (created_record rows now src sid ttl desc tgs scr dict),
           rows @ [created_record rows now src sid ttl desc tgs scr dict])
      | Some old \<Rightarrow>
          (Some (updated_record now (Some ttl) desc tgs scr dict None old),
           commit_row (updated_record now (Some ttl) desc tgs scr dict None old) rows))"
  by (simp add: upsert_def create_eq update_eq [OF assms] split: option.splits)

text \<open>The record that \<open>upsert\<close> leaves for the key, and the store after it.\<close>

lemma upsert_result:
  assumes ok: "store_ok rows"
    and u: "upsert rows now src sid ttl desc tgs scr dict = (res, rows')"
  shows "\<exists>r. res = Some r \<and> read rows' src sid = Some r \<and> with_key src sid rows' = [r]
     \<and> store_ok rows'
     \<and> length rows' = length rows + (if read rows src sid = None then 1 else 0)
     \<and> source r = src \<and> source_id r = sid \<and> title r = ttl
     \<and> description r =
         (case desc of Some v \<Rightarrow> Some v
          | None \<Rightarrow> (case read rows src sid of None \<Rightarrow> None | Some old \<Rightarrow> description old))
     \<and> tags r =
         (case tgs of Some v \<Rightarrow> Some v
          | None \<Rightarrow> (case read rows src sid of None \<Rightarrow> None | Some old \<Rightarrow> tags old))
     \<and> score r =
         (case scr of Some v \<Rightarrow> Some v
          | None \<Rightarrow> (case read rows src sid of None \<Rightarrow> None | Some old \<Rightarrow> score old))
     \<and> get_score_dict r =
         (case dict of Some d \<Rightarrow> d
          | None \<Rightarrow> (case read rows src sid of None \<Rightarrow> [] | Some old \<Rightarrow> get_score_dict old))"
proof (cases "read rows src sid")
  case None
  define r where "r = created_record rows now src sid ttl desc tgs scr dict"
  from None u have 1: "res = Some r" "rows' = rows @ [r]"
    by (simp_all add: upsert_eq [OF ok] r_def)
  have k: "source r = src" "source_id r = sid" by (simp_all add: r_def created_record_def)
  have rd: "read rows' src sid = Some r" unfolding 1 by (rule read_append_new [OF None k])
  have o: "store_ok rows'"
    unfolding 1
    by (rule store_ok_append [OF ok]) (simp_all add: k None, simp add: r_def created_record_def)
  have f: "title r = ttl" "description r = desc" "tags r = tgs" "score r = scr"
    by (simp_all add: r_def created_record_def)
  have g: "get_score_dict r = (case dict of None \<Rightarrow> [] | Some d \<Rightarrow> d)"
    unfolding r_def by (rule get_score_dict_created)
  from 1 rd read_with_key [OF o rd] o k f g None show ?thesis
    by (auto split: option.splits)
next
  case (Some old)
  define r where "r = updated_record now (Some ttl) desc tgs scr dict None old"
  from Some u have 1: "res = Some r" "rows' = commit_row r rows"
    by (simp_all add: upsert_eq [OF ok] r_def)
  from read_SomeD [OF Some] have ko: "source old = src" "source_id old = sid" by simp_all
  have id: "row_id r = row_id old" and k: "source r = src" "source_id r = sid"
    by (simp_all add: r_def updated_record_keys ko)
  note c = commit_row_facts [OF ok Some id k]
  have f: "title r = ttl"
    "description r = (case desc of None \<Rightarrow> description old | Some v \<Rightarrow> Some v)"
    "tags r = (case tgs of None \<Rightarrow> tags old | Some v \<Rightarrow> Some v)"
    "score r = (case scr of None \<Rightarrow> score old | Some v \<Rightarrow> Some v)"
    by (simp_all add: r_def updated_record_fields)
  have g: "get_score_dict r = (case dict of None \<Rightarrow> get_score_dict old | Some d \<Rightarrow> d)"
    by (simp add: get_score_dict_def r_def updated_record_fields split: option.splits)
  from 1 c k f g Some show ?thesis by (auto split: option.splits)
qed

text \<open>
  C1, as stated, for every store state: the surviving record's fields equal the second call's
  arguments. When the key is already stored with a description and \<open>upsert\<close> is called twice
  without one, \<open>update\<close> skips the omitted field and the survivor keeps the old description.
\<close>

theorem upsert_twice_counterexample:
  "store_ok [sample_row]
   \<and> map title
        (snd (upsert (snd (upsert [sample_row] 200 ''reddit'' ''abc'' ''T1'' None None None None))
               300 ''reddit'' ''abc'' ''T1'' None None None None)) = [''T1'']
   \<and> map description
        (snd (upsert (snd (upsert [sample_row] 200 ''reddit'' ''abc'' ''T1'' None None None None))
               300 ''reddit'' ''abc'' ''T1'' None None None None)) = [Some ''D0'']
   \<and> Some ''D0'' \<noteq> (None :: string option)"
proof -
  define a where "a = sample_row\<lparr>title := ''T1'', updated_at := 200\<rparr>"
  have ne: "sample_row\<lparr>title := ''T1''\<rparr> \<noteq> sample_row"
  proof
    assume "sample_row\<lparr>title := ''T1''\<rparr> = sample_row"
    then have "title (sample_row\<lparr>title := ''T1''\<rparr>) = title sample_row" by simp
    then show False by (simp add: sample_row_def)
  qed
  have rd1: "read [sample_row] ''reddit'' ''abc'' = Some sample_row"
    by (simp add: read_def sample_row_def)
  have as1: "assigned_record (Some ''T1'') None None None None None sample_row
      = sample_row\<lparr>title := ''T1''\<rparr>"
    by (simp add: assigned_record_def)
  have 1: "upsert [sample_row] 200 ''reddit'' ''abc'' ''T1'' None None None None = (Some a, [a])"
    by (simp add: upsert_eq [OF store_ok_sample] rd1 updated_record_def as1 ne commit_row_def a_def)
  have ok: "store_ok [a]" by (simp add: store_ok_def)
  have rd2: "read [a] ''reddit'' ''abc'' = Some a"
    by (simp add: read_def a_def sample_row_def)
  have as2: "assigned_record (Some ''T1'') None None None None None a = a"
    by (simp add: assigned_record_def a_def)
  have 2: "upsert [a] 300 ''reddit'' ''abc'' ''T1'' None None None None = (Some a, [a])"
    by (simp add: upsert_eq [OF ok] rd2 updated_record_def as2 commit_row_def)
  have 3: "title a = ''T1''" "description a = Some ''D0''"
    by (simp_all add: a_def sample_row_def)
  show ?thesis unfolding 1 snd_conv 2 using store_ok_sample 3 by simp
qed

text \<open>
  C1, amended: in every store state two successive \<open>upsert\<close> calls with the same arguments
  leave exactly one stored record with the key; \<open>count\<close> grows by one with the first call when
  no record had the key before (and not at all otherwise) and by nothing with the second;
  the surviving record has the title of the call and, for description, tags, score and
  metrics, the argument where one is supplied and otherwise the value stored before the
  first call (nothing, and the empty mapping, when the first call created the record).
\<close>

theorem upsert_twice:
  assumes "store_ok rows"
    and "upsert rows now1 src sid ttl desc tgs scr dict = (r1, rows1)"
    and "upsert rows1 now2 src sid ttl desc tgs scr dict = (r2, rows2)"
  shows "count rows1 = count rows + (if read rows src sid = None then 1 else 0)
     \<and> count rows2 = count rows1
     \<and> (\<exists>r. r2 = Some r \<and> with_key src sid rows2 = [r] \<and> read rows2 src sid = Some r
          \<and> source r = src \<and> source_id r = sid \<and> title r = ttl
          \<and> description r =
              (case desc of Some v \<Rightarrow> Some v
               | None \<Rightarrow> (case read rows src sid of None \<Rightarrow> None | Some old \<Rightarrow> description old))
          \<and> tags r =
              (case tgs of Some v \<Rightarrow> Some v
               | None \<Rightarrow> (case read rows src sid of None \<Rightarrow> None | Some old \<Rightarrow> tags old))
          \<and> score r =
              (case scr of Some v \<Rightarrow> Some v
               | None \<Rightarrow> (case read rows src sid of None \<Rightarrow> None | Some old \<Rightarrow> score old))
          \<and> get_score_dict r =
              (case dict of Some d \<Rightarrow> d
               | None \<Rightarrow> (case read rows src sid of None \<Rightarrow> []
                            | Some old \<Rightarrow> get_score_dict old)))"
proof -
  from upsert_result [OF assms(1,2)] obtain a where
    a: "r1 = Some a" "read rows1 src sid = Some a" "store_ok rows1"
      "length rows1 = length rows + (if read rows src sid = None then 1 else 0)"
    and ad: "description a =
         (case desc of Some v \<Rightarrow> Some v
          | None \<Rightarrow> (case read rows src sid of None \<Rightarrow> None | Some old \<Rightarrow> description old))"
    and at: "tags a =
         (case tgs of Some v \<Rightarrow> Some v
          | None \<Rightarrow> (case read rows src sid of None \<Rightarrow> None | Some old \<Rightarrow> tags old))"
    and as: "score a =
         (case scr of Some v \<Rightarrow> Some v
          | None \<Rightarrow> (case read rows src sid of None \<Rightarrow> None | Some old \<Rightarrow> score old))"
    and ag: "get_score_dict a =
         (case dict of Some d \<Rightarrow> d
          | None \<Rightarrow> (case read rows src sid of None \<Rightarrow> [] | Some old \<Rightarrow> get_score_dict old))"
    by blast
  from upsert_result [OF a(3) assms(3)] obtain b where
    b: "r2 = Some b" "read rows2 src sid = Some b" "with_key src sid rows2 = [b]"
      "length rows2 = length rows1 + (if read rows1 src sid = None then 1 else 0)"
      "source b = src" "source_id b = sid" "title b = ttl"
    and bd: "description b =
         (case desc of Some v \<Rightarrow> Some v
          | None \<Rightarrow> (case read rows1 src sid of None \<Rightarrow> None | Some old \<Rightarrow> description old))"
    and bt: "tags b =
         (case tgs of Some v \<Rightarrow> Some v
          | None \<Rightarrow> (case read rows1 src sid of None \<Rightarrow> None | Some old \<Rightarrow> tags old))"
    and bs: "score b =
         (case scr of Some v \<Rightarrow> Some v
          | None \<Rightarrow> (case read rows1 src sid of None \<Rightarrow> None | Some old \<Rightarrow> score old))"
    and bg: "get_score_dict b =
         (case dict of Some d \<Rightarrow> d
          | None \<Rightarrow> (case read rows1 src sid of None \<Rightarrow> [] | Some old \<Rightarrow> get_score_dict old))"
    by blast
  have c1: "count rows1 = count rows + (if read rows src sid = None then 1 else 0)"
    using a(4) by (simp add: count_def)
  have c2: "count rows2 = count rows1" using b(4) a(2) by (simp add: count_def)
  have d: "description b =
         (case desc of Some v \<Rightarrow> Some v
          | None \<Rightarrow> (case read rows src sid of None \<Rightarrow> None | Some old \<Rightarrow> description old))"
    unfolding bd a(2) using ad by (cases desc) simp_all
  have t: "tags b =
         (case tgs of Some v \<Rightarrow> Some v
          | None \<Rightarrow> (case read rows src sid of None \<Rightarrow> None | Some old \<Rightarrow> tags old))"
    unfolding bt a(2) using at by (cases tgs) simp_all
  have s: "score b =
         (case scr of Some v \<Rightarrow> Some v
          | None \<Rightarrow> (case read rows src sid of None \<Rightarrow> None | Some old \<Rightarrow> score old))"
    unfolding bs a(2) using as by (cases scr) simp_all
  have g: "get_score_dict b =
         (case dict of Some d \<Rightarrow> d
          | None \<Rightarrow> (case read rows src sid of None \<Rightarrow> [] | Some old \<Rightarrow> get_score_dict old))"
    unfolding bg a(2) using ag by (cases dict) simp_all
  from c1 c2 b d t s g show ?thesis by (intro conjI exI [of _ b])
qed

theorem upsert_twice_witness:
  "store_ok []
   \<and> upsert [] 200 ''reddit'' ''abc'' ''T1'' (Some ''D1'') None (Some 95.5)
        (Some [(''upvotes'', 1500), (''comments'', 250)])
       = (Some \<lparr>row_id = 1, source = ''reddit'', source_id = ''abc'', title = ''T1'',
                 description = Some ''D1'', tags = None, score = Some 95.5,
                 score_dictionary = Some [(''upvotes'', 1500), (''comments'', 250)],
                 processed = False, created_at = 200, updated_at = 200\<rparr>,
          [\<lparr>row_id = 1, source = ''reddit'', source_id = ''abc'', title = ''T1'',
                 description = Some ''D1'', tags = None, score = Some 95.5,
                 score_dictionary = Some [(''upvotes'', 1500), (''comments'', 250)],
                 processed = False, created_at = 200, updated_at = 200\<rparr>])
   \<and> (\<exists>r rows2.
         upsert [\<lparr>row_id = 1, source = ''reddit'', source_id = ''abc'', title = ''T1'',
                 description = Some ''D1'', tags = None, score = Some 95.5,
                 score_dictionary = Some [(''upvotes'', 1500), (''comments'', 250)],
                 processed = False, created_at = 200, updated_at = 200\<rparr>]
            300 ''reddit'' ''abc'' ''T1'' (Some ''D1'') None (Some 95.5)
            (Some [(''upvotes'', 1500), (''comments'', 250)]) = (Some r, rows2)
         \<and> count rows2 = 1 \<and> with_key ''reddit'' ''abc'' rows2 = [r]
         \<and> title r = ''T1'' \<and> description r = Some ''D1'' \<and> tags r = None
         \<and> score r = Some 95.5
         \<and> get_score_dict r = [(''upvotes'', 1500), (''comments'', 250)])"
proof -
  define a where "a = \<lparr>row_id = 1, source = ''reddit'', source_id = ''abc'', title = ''T1'',
                 description = Some ''D1'', tags = None, score = Some (95.5::real),
                 score_dictionary = Some [(''upvotes'', 1500::real), (''comments'', 250)],
                 processed = False, created_at = 200, updated_at = 200\<rparr>"
  have rd: "read [] ''reddit'' ''abc'' = None" by (simp add: read_def)
  have u1: "upsert [] 200 ''reddit'' ''abc'' ''T1'' (Some ''D1'') None (Some 95.5)
        (Some [(''upvotes'', 1500), (''comments'', 250)]) = (Some a, [a])"
    by (simp add: upsert_eq [OF store_ok_empty] rd created_record_def next_row_id_def a_def)
  obtain r2 rows2 where u2: "upsert [a] 300 ''reddit'' ''abc'' ''T1'' (Some ''D1'') None (Some 95.5)
        (Some [(''upvotes'', 1500), (''comments'', 250)]) = (r2, rows2)"
    by (cases "upsert [a] 300 ''reddit'' ''abc'' ''T1'' (Some ''D1'') None (Some 95.5)
        (Some [(''upvotes'', 1500), (''comments'', 250)])") blast
  from upsert_twice [OF store_ok_empty u1 u2] rd
  obtain r where r: "r2 = Some r" "with_key ''reddit'' ''abc'' rows2 = [r]" "title r = ''T1''"
      "description r = Some ''D1''" "tags r = None" "score r = Some 95.5"
      "get_score_dict r = [(''upvotes'', 1500), (''comments'', 250)]"
    and c: "count [a] = count [] + 1" "count rows2 = count [a]"
    by auto
  from c have "count rows2 = 1" by (simp add: count_def)
  with r u2 have "\<exists>r rows2. upsert [a] 300 ''reddit'' ''abc'' ''T1'' (Some ''D1'') None (Some 95.5)
            (Some [(''upvotes'', 1500), (''comments'', 250)]) = (Some r, rows2)
         \<and> count rows2 = 1 \<and> with_key ''reddit'' ''abc'' rows2 = [r]
         \<and> title r = ''T1'' \<and> description r = Some ''D1'' \<and> tags r = None
         \<and> score r = Some 95.5
         \<and> get_score_dict r = [(''upvotes'', 1500), (''comments'', 250)]"
    by blast
  with u1 store_ok_empty show ?thesis unfolding a_def by blast
qed

section \<open>DBContext: listing\<close>

text \<open>
  A value of a column as the engine compares it in \<open>ORDER BY\<close>: \<open>NULL\<close> sorts before every
  number and every number before every text; numbers compare by value, texts byte by byte.
  The triple holds the rank of the kind, the number and the text, compared from left to right.
\<close>

type_synonym sql_value = "nat \<times> real \<times> string"

definition sql_null :: sql_value where
  "sql_null = (0, 0, [])"

definition sql_number :: "real \<Rightarrow> sql_value" where
  "sql_number x = (1, x, [])"

definition sql_text :: "string \<Rightarrow> sql_value" where
  "sql_text s = (2, 0, s)"

definition sql_option :: "('a \<Rightarrow> sql_value) \<Rightarrow> 'a option \<Rightarrow> sql_value" where
  "sql_option f v = (case v of None \<Rightarrow> sql_null | Some x \<Rightarrow> f x)"

text \<open>
  What \<open>list_all\<close> needs of the class \<open>RedditSource\<close>, whose file is not among the sources, as
  parameters: which names other than the columns are attributes of the class (its methods
  and what every mapped class carries), and the text that encodes a metrics mapping.
\<close>

record RedditSource_class =
  other_attribute :: "string \<Rightarrow> bool"
  json_dumps :: "score_dict \<Rightarrow> string"

text \<open>The columns by name, each with the value \<open>ORDER BY\<close> compares.\<close>

definition column_of :: "RedditSource_class \<Rightarrow> string \<Rightarrow> (RedditSource \<Rightarrow> sql_value) option" where
  "column_of cls name =
     (if name = ''id'' then Some (\<lambda>r. sql_number (real_of_int (row_id r)))
      else if name = ''source'' then Some (\<lambda>r. sql_text (source r))
      else if name = ''source_id'' then Some (\<lambda>r. sql_text (source_id r))
      else if name = ''title'' then Some (\<lambda>r. sql_text (title r))
      else if name = ''description'' then Some (\<lambda>r. sql_option sql_text (description r))
      else if name = ''tags'' then Some (\<lambda>r. sql_option sql_text (tags r))
      else if name = ''score'' then Some (\<lambda>r. sql_option sql_number (score r))
      else if name = ''score_dictionary''
        then Some (\<lambda>r. sql_option (\<lambda>d. sql_text (json_dumps cls d)) (score_dictionary r))
      else if name = ''processed'' then Some (\<lambda>r. sql_number (if processed r then 1 else 0))
      else if name = ''created_at'' then Some (\<lambda>r. sql_number (real_of_int (created_at r)))
      else if name = ''updated_at'' then Some (\<lambda>r. sql_number (real_of_int (updated_at r)))
      else None)"

text \<open>
  \<open>getattr(RedditSource, order_by, RedditSource.score)\<close>: the attribute of that name, the score
  column when there is none. An attribute that is not a column cannot be ordered by.
\<close>

definition order_column ::
  "RedditSource_class \<Rightarrow> string \<Rightarrow> py_error + (RedditSource \<Rightarrow> sql_value)" where
  "order_column cls order_by =
     (case column_of cls order_by of
        Some column \<Rightarrow> Inr column
      | None \<Rightarrow>
          if other_attribute cls order_by then Inl ArgumentError
          else Inr (\<lambda>r. sql_option sql_number (score r)))"

text \<open>
  \<open>ORDER BY column ASC\<close> and \<open>DESC\<close>. The engine does not fix the order of rows with equal
  values; the model keeps them in the order of the table.
\<close>

definition order_by_asc :: "(RedditSource \<Rightarrow> sql_value) \<Rightarrow> RedditSource list \<Rightarrow> RedditSource list" where
  "order_by_asc column rows = sort_key column rows"

definition order_by_desc :: "(RedditSource \<Rightarrow> sql_value) \<Rightarrow> RedditSource list \<Rightarrow> RedditSource list" where
  "order_by_desc column rows = rev (sort_key column (rev rows))"

text \<open>\<open>LIMIT n\<close>: the first \<open>n\<close> rows; a negative \<open>n\<close> is no bound in SQLite.\<close>

definition sql_limit :: "int \<Rightarrow> RedditSource list \<Rightarrow> RedditSource list" where
  "sql_limit n rows = (if n < 0 then rows else take (nat n) rows)"

text \<open>
  \<open>list_all\<close> (the name \<open>list_all\<close> is taken by a function on lists). The limit is applied
  under \<open>if limit:\<close>, which is false for \<open>None\<close> and for \<open>0\<close>.
\<close>

definition list_all_rows ::
  "RedditSource_class \<Rightarrow> RedditSource list \<Rightarrow> int option \<Rightarrow> string \<Rightarrow> bool
     \<Rightarrow> py_error + RedditSource list" where
  "list_all_rows cls rows limit order_by ascending =
     (case order_column cls order_by of
        Inl e \<Rightarrow> Inl e
      | Inr column \<Rightarrow>
          let query = (if ascending then order_by_asc column rows
                       else order_by_desc column rows);
              query = (case limit of
                         None \<Rightarrow> query
                       | Some n \<Rightarrow> if n \<noteq> 0 then sql_limit n query else query)
          in Inr query)"

definition sample_class :: RedditSource_class where
  "sample_class =
     \<lparr>other_attribute = (\<lambda>name. name \<in> set [''get_score_dict'', ''set_score_dict'', ''to_dict'',
          ''metadata'', ''__tablename__'']),
      json_dumps = (\<lambda>d. ''{}'')\<rparr>"

definition scored_row :: "int \<Rightarrow> string \<Rightarrow> real option \<Rightarrow> RedditSource" where
  "scored_row i sid s = sample_row\<lparr>row_id := i, source_id := sid, score := s\<rparr>"

definition sample_rows :: "RedditSource list" where
  "sample_rows = [scored_row 1 ''a'' (Some 10), scored_row 2 ''b'' (Some 50),
     scored_row 3 ''c'' (Some 30)]"

section \<open>Listing: order and limit\<close>




lemma list_all_rows_example:
  "list_all_rows sample_class sample_rows (Some 2) ''score'' False =
     Inr [scored_row 2 ''b'' (Some 50), scored_row 3 ''c'' (Some 30)]"
  by (simp add: list_all_rows_def order_column_def column_of_def order_by_desc_def sql_limit_def
      sample_rows_def scored_row_def sql_option_def sql_number_def Let_def)



end
